theory Spec2Isabelle
  imports Main "HOL-Library.Sublist"
begin

section \<open>Browsable hierarchy of a STAC API: data model\<close>

text \<open>
  The module \<^verbatim>\<open>stac_fastapi/types/hierarchy.py\<close> parses a nested dictionary into a tree of
  browsable nodes and renders a catalog node as a STAC catalog with links.

  Python exceptions are values: a function that can raise returns \<open>error + 'a\<close>, with
  \<open>Inl\<close> for the exception.
\<close>

datatype error = TypeError | ValueError | KeyError | ValidationError | RecursionError

type_synonym ItemPath = "string \<times> string"

text \<open>A list comprehension whose element expression can raise: the first exception ends it.\<close>

fun comprehension :: "('a \<Rightarrow> error + 'b) \<Rightarrow> 'a list \<Rightarrow> error + 'b list" where
  "comprehension f [] = Inr []"
| "comprehension f (x # xs) =
     (case f x of
        Inl e \<Rightarrow> Inl e
      | Inr y \<Rightarrow>
          (case comprehension f xs of
             Inl e \<Rightarrow> Inl e
           | Inr ys \<Rightarrow> Inr (y # ys)))"

text \<open>
  The input of \<^verbatim>\<open>parse_hierarchy\<close> is a dictionary of the shape
  \<^verbatim>\<open>{children?: [...], items?: [[collection_id, item_id], ...], collection_id?: str,
  catalog_id?: str, title?: str, description?: str}\<close>.
  The function reads these six keys and no other, so the dictionary is the six lookups
  \<^verbatim>\<open>d.get(key)\<close>, each \<open>None\<close> where the key is absent. The values have the types of
  this shape: \<^verbatim>\<open>children\<close>, when present, is a list of such dictionaries. A value of the
  datatype is a finite tree, so an input has no cycles.
\<close>

datatype hierarchy_dict =
  Dict (d_collection_id: "string option")
       (d_catalog_id: "string option")
       (d_title: "string option")
       (d_description: "string option")
       (d_children: "hierarchy_dict list option")
       (d_items: "ItemPath list option")

text \<open>
  A node is a \<^verbatim>\<open>TypedDict\<close>, at run time a dictionary, and the code tells the three node
  classes apart by the presence of a key (\<^verbatim>\<open>"collection_id" in node\<close>). So a node keeps,
  for each of \<^verbatim>\<open>collection_id\<close>, \<^verbatim>\<open>catalog_id\<close>, \<^verbatim>\<open>title\<close> and \<^verbatim>\<open>description\<close>, what
  \<^verbatim>\<open>node.get(key)\<close> yields (\<open>None\<close> for an absent key). The keys \<^verbatim>\<open>children\<close> and
  \<^verbatim>\<open>items\<close> are required ones; \<^verbatim>\<open>items\<close> may hold Python's \<^verbatim>\<open>None\<close>, since the parser stores
  \<^verbatim>\<open>d.get("items")\<close> there.
\<close>

datatype node =
  Node (collection_id: "string option")
       (catalog_id: "string option")
       (title: "string option")
       (description: "string option")
       (children: "node list")
       (items: "ItemPath list option")

text \<open>The three \<^verbatim>\<open>TypedDict\<close> constructors, with the keys each call passes.\<close>

definition BrowsableNode :: "node list \<Rightarrow> ItemPath list option \<Rightarrow> node" where
  "BrowsableNode cs its = Node None None None None cs its"

definition CollectionNode :: "string \<Rightarrow> node list \<Rightarrow> ItemPath list option \<Rightarrow> node" where
  "CollectionNode cid cs its = Node (Some cid) None None None cs its"

definition CatalogNode ::
  "string \<Rightarrow> node list \<Rightarrow> ItemPath list option \<Rightarrow> string option \<Rightarrow> string option \<Rightarrow> node" where
  "CatalogNode cid cs its t d = Node None (Some cid) t d cs its"

section \<open>The parser\<close>

text \<open>
  \<open>parse_hierarchy\<close> is the node the code returns when the interpreter's call stack has room
  for the recursion; \<open>parse_hierarchy_limited\<close> below adds the recursion limit.
\<close>

fun parse_hierarchy :: "hierarchy_dict \<Rightarrow> node" where
  "parse_hierarchy (Dict coll cat t descr ch its) =
     (let children = (case ch of
                        Some cs \<Rightarrow> map parse_hierarchy cs
                      | None \<Rightarrow> [])
      in case coll of
           Some cid \<Rightarrow> CollectionNode cid children its
         | None \<Rightarrow>
             (case cat of
                Some cid \<Rightarrow> CatalogNode cid children its t descr
              | None \<Rightarrow> BrowsableNode children its))"

text \<open>
  The interpreter runs \<^verbatim>\<open>parse_hierarchy\<close> on its call stack, under its recursion limit, and
  the code has no depth guard of its own. \<open>parse_hierarchy_limited room\<close> is the function run
  with room for \<open>room\<close> nested calls of itself: a call that finds no room raises
  \<^verbatim>\<open>RecursionError\<close>, which nothing catches, so it ends the whole parse. CPython 3.11 spends
  two frames on a nested call (the function and its list comprehension), so its default limit
  of 1000 frames leaves room for at most 500 nested calls.
  \<open>depth\<close> is the number of nested calls an input needs; \<open>nested n\<close> is a chain of \<open>n\<close>
  catalogs around a leaf, an input of depth \<open>n + 1\<close>.
\<close>

fun parse_hierarchy_limited :: "nat \<Rightarrow> hierarchy_dict \<Rightarrow> error + node" where
  "parse_hierarchy_limited 0 d = Inl RecursionError"
| "parse_hierarchy_limited (Suc room) d =
     (case (case d_children d of
              Some cs \<Rightarrow> comprehension (parse_hierarchy_limited room) cs
            | None \<Rightarrow> Inr []) of
        Inl e \<Rightarrow> Inl e
      | Inr parsed \<Rightarrow>
          Inr (case d_collection_id d of
                 Some cid \<Rightarrow> CollectionNode cid parsed (d_items d)
               | None \<Rightarrow>
                   (case d_catalog_id d of
                      Some cid \<Rightarrow>
                        CatalogNode cid parsed (d_items d) (d_title d) (d_description d)
                    | None \<Rightarrow> BrowsableNode parsed (d_items d))))"

fun depth :: "hierarchy_dict \<Rightarrow> nat" where
  "depth (Dict coll cat t descr ch its) =
     (case ch of
        Some cs \<Rightarrow> Suc (foldr max (map depth cs) 0)
      | None \<Rightarrow> 1)"

fun nested :: "nat \<Rightarrow> hierarchy_dict" where
  "nested 0 = Dict None (Some ''leaf'') None None None None"
| "nested (Suc n) = Dict None (Some ''level'') None None (Some [nested n]) None"

section \<open>Python strings\<close>

text \<open>
  A \<^verbatim>\<open>str\<close> is a \<open>string\<close>. The methods the code and \<^verbatim>\<open>urllib.parse\<close> use:
  \<^verbatim>\<open>s.strip(chars)\<close>, \<^verbatim>\<open>s.lstrip(chars)\<close>, \<^verbatim>\<open>s.split(sep)\<close> with a separator of one character,
  \<^verbatim>\<open>sep.join(parts)\<close>, \<^verbatim>\<open>s.split(sep, 1)\<close> for a separator that occurs in \<open>s\<close>, and
  \<^verbatim>\<open>s.lower()\<close> on ASCII text.
\<close>

definition str_lstrip :: "string \<Rightarrow> string \<Rightarrow> string" where
  "str_lstrip chars s = dropWhile (\<lambda>c. c \<in> set chars) s"

definition str_rstrip :: "string \<Rightarrow> string \<Rightarrow> string" where
  "str_rstrip chars s = rev (dropWhile (\<lambda>c. c \<in> set chars) (rev s))"

definition str_strip :: "string \<Rightarrow> string \<Rightarrow> string" where
  "str_strip chars s = str_rstrip chars (str_lstrip chars s)"

fun str_split :: "char \<Rightarrow> string \<Rightarrow> string list" where
  "str_split sep [] = [[]]"
| "str_split sep (c # cs) =
     (if c = sep then [] # str_split sep cs
      else (case str_split sep cs of
              [] \<Rightarrow> [[c]]
            | w # ws \<Rightarrow> (c # w) # ws))"

fun str_join :: "string \<Rightarrow> string list \<Rightarrow> string" where
  "str_join sep [] = []"
| "str_join sep [w] = w"
| "str_join sep (w # ws) = w @ sep @ str_join sep ws"

definition split_once :: "char \<Rightarrow> string \<Rightarrow> string \<times> string" where
  "split_once sep s = (takeWhile (\<lambda>c. c \<noteq> sep) s, drop 1 (dropWhile (\<lambda>c. c \<noteq> sep) s))"

section \<open>The standard library's \<^verbatim>\<open>urljoin\<close>\<close>

text \<open>
  \<^verbatim>\<open>urljoin\<close> is imported from \<^verbatim>\<open>urllib.parse\<close>. The functions of the module under
  verification take it as a parameter. Where a statement depends on what \<^verbatim>\<open>urljoin\<close>
  computes, it is stated for \<open>urllib_urljoin\<close> below, which follows CPython 3.11's
  \<^verbatim>\<open>urllib/parse.py\<close> (\<^verbatim>\<open>urlsplit\<close>, \<^verbatim>\<open>urlparse\<close>, \<^verbatim>\<open>urlunsplit\<close>, \<^verbatim>\<open>urlunparse\<close>, \<^verbatim>\<open>urljoin\<close>) on
  \<^verbatim>\<open>str\<close> arguments with \<^verbatim>\<open>allow_fragments=True\<close>.
  \<^item> The validation of a bracketed host by the \<^verbatim>\<open>ipaddress\<close> module
    (\<^verbatim>\<open>_check_bracketed_host\<close>) is the parameter \<open>check_bracketed_host\<close>: \<open>False\<close> where
    the library raises \<^verbatim>\<open>ValueError\<close>.
  \<^item> \<^verbatim>\<open>_checknetloc\<close> only rejects a host whose NFKC normal form brings in one of
    \<^verbatim>\<open>/?#@:\<close>; no character below U+0100 does, and a \<open>char\<close> is such a character, so the
    check never raises here.
  \<^item> The result cache of \<^verbatim>\<open>urlsplit\<close> does not change results.
\<close>

definition uses_relative :: "string list" where
  "uses_relative = ['''', ''ftp'', ''http'', ''gopher'', ''nntp'', ''imap'',
                    ''wais'', ''file'', ''https'', ''shttp'', ''mms'',
                    ''prospero'', ''rtsp'', ''rtsps'', ''rtspu'', ''sftp'',
                    ''svn'', ''svn+ssh'', ''ws'', ''wss'']"

definition uses_netloc :: "string list" where
  "uses_netloc = ['''', ''ftp'', ''http'', ''gopher'', ''nntp'', ''telnet'',
                  ''imap'', ''wais'', ''file'', ''mms'', ''https'', ''shttp'',
                  ''snews'', ''prospero'', ''rtsp'', ''rtsps'', ''rtspu'', ''rsync'',
                  ''svn'', ''svn+ssh'', ''sftp'', ''nfs'', ''git'', ''git+ssh'',
                  ''ws'', ''wss'']"

definition uses_params :: "string list" where
  "uses_params = ['''', ''ftp'', ''hdl'', ''prospero'', ''http'', ''imap'',
                  ''https'', ''shttp'', ''rtsp'', ''rtsps'', ''rtspu'', ''sip'',
                  ''sips'', ''mms'', ''sftp'', ''tel'']"

definition ascii_lowercase :: string where
  "ascii_lowercase = ''abcdefghijklmnopqrstuvwxyz''"

definition ascii_uppercase :: string where
  "ascii_uppercase = ''ABCDEFGHIJKLMNOPQRSTUVWXYZ''"

definition scheme_chars :: string where
  "scheme_chars = ascii_lowercase @ ascii_uppercase @ ''0123456789'' @ ''+-.''"

definition WHATWG_C0_CONTROL_OR_SPACE :: string where
  "WHATWG_C0_CONTROL_OR_SPACE =
     [CHR 0x00, CHR 0x01, CHR 0x02, CHR 0x03, CHR 0x04, CHR 0x05, CHR 0x06, CHR 0x07,
      CHR 0x08, CHR 0x09, CHR 0x0A, CHR 0x0B, CHR 0x0C, CHR 0x0D, CHR 0x0E, CHR 0x0F,
      CHR 0x10, CHR 0x11, CHR 0x12, CHR 0x13, CHR 0x14, CHR 0x15, CHR 0x16, CHR 0x17,
      CHR 0x18, CHR 0x19, CHR 0x1A, CHR 0x1B, CHR 0x1C, CHR 0x1D, CHR 0x1E, CHR 0x1F,
      CHR '' '']"

definition UNSAFE_URL_BYTES_TO_REMOVE :: string where
  "UNSAFE_URL_BYTES_TO_REMOVE = [CHR 0x09, CHR 0x0D, CHR 0x0A]"

definition str_lower :: "string \<Rightarrow> string" where
  "str_lower s =
     map (\<lambda>c. case map_of (zip ascii_uppercase ascii_lowercase) c of
                 Some l \<Rightarrow> l
               | None \<Rightarrow> c) s"

definition splitnetloc :: "string \<Rightarrow> string \<times> string" where
  "splitnetloc url =
     (let rest = drop 2 url
      in (takeWhile (\<lambda>c. c \<notin> set ''/?#'') rest, dropWhile (\<lambda>c. c \<notin> set ''/?#'') rest))"

definition bracketed_host :: "string \<Rightarrow> string" where
  "bracketed_host netloc =
     takeWhile (\<lambda>c. c \<noteq> CHR '']'') (drop 1 (dropWhile (\<lambda>c. c \<noteq> CHR ''['') netloc))"

type_synonym SplitResult = "string \<times> string \<times> string \<times> string \<times> string"
type_synonym ParseResult = "string \<times> string \<times> string \<times> string \<times> string \<times> string"

definition urlsplit :: "(string \<Rightarrow> bool) \<Rightarrow> string \<Rightarrow> string \<Rightarrow> error + SplitResult" where
  "urlsplit check_bracketed_host url0 scheme0 =
     (let url1 = filter (\<lambda>c. c \<notin> set UNSAFE_URL_BYTES_TO_REMOVE)
                   (str_lstrip WHATWG_C0_CONTROL_OR_SPACE url0);
          scheme1 = filter (\<lambda>c. c \<notin> set UNSAFE_URL_BYTES_TO_REMOVE)
                      (str_strip WHATWG_C0_CONTROL_OR_SPACE scheme0);
          pre = takeWhile (\<lambda>c. c \<noteq> CHR '':'') url1;
          (scheme, url2) =
            (if CHR '':'' \<in> set url1 \<and> pre \<noteq> [] \<and>
                hd url1 \<in> set (ascii_lowercase @ ascii_uppercase) \<and>
                list_all (\<lambda>c. c \<in> set scheme_chars) pre
             then (str_lower pre, drop (Suc (length pre)) url1)
             else (scheme1, url1));
          (netloc, url3) = (if take 2 url2 = ''//'' then splitnetloc url2 else ('''', url2))
      in if (CHR ''['' \<in> set netloc \<and> CHR '']'' \<notin> set netloc) \<or>
            (CHR '']'' \<in> set netloc \<and> CHR ''['' \<notin> set netloc)
         then Inl ValueError
         else if CHR ''['' \<in> set netloc \<and> CHR '']'' \<in> set netloc \<and>
                 \<not> check_bracketed_host (bracketed_host netloc)
         then Inl ValueError
         else
           (let (url4, fragment) =
                  (if CHR ''#'' \<in> set url3 then split_once CHR ''#'' url3 else (url3, ''''));
                (url5, query) =
                  (if CHR ''?'' \<in> set url4 then split_once CHR ''?'' url4 else (url4, ''''))
            in Inr (scheme, netloc, url5, query, fragment)))"

definition splitparams :: "string \<Rightarrow> string \<times> string" where
  "splitparams url =
     (if CHR ''/'' \<in> set url then
        (let last_seg = rev (takeWhile (\<lambda>c. c \<noteq> CHR ''/'') (rev url));
             front = take (length url - length last_seg) url
         in if CHR '';'' \<in> set last_seg
            then (front @ takeWhile (\<lambda>c. c \<noteq> CHR '';'') last_seg,
                  drop 1 (dropWhile (\<lambda>c. c \<noteq> CHR '';'') last_seg))
            else (url, ''''))
      else split_once CHR '';'' url)"

definition urlparse :: "(string \<Rightarrow> bool) \<Rightarrow> string \<Rightarrow> string \<Rightarrow> error + ParseResult" where
  "urlparse check_bracketed_host url0 scheme0 =
     (case urlsplit check_bracketed_host url0 scheme0 of
        Inl e \<Rightarrow> Inl e
      | Inr (scheme, netloc, url, query, fragment) \<Rightarrow>
          (let (url', params) =
                 (if scheme \<in> set uses_params \<and> CHR '';'' \<in> set url
                  then splitparams url else (url, ''''))
           in Inr (scheme, netloc, url', params, query, fragment)))"

definition urlunsplit :: "SplitResult \<Rightarrow> string" where
  "urlunsplit components =
     (case components of (scheme, netloc, url0, query, fragment) \<Rightarrow>
        (let url1 = (if netloc \<noteq> [] \<or> (scheme \<noteq> [] \<and> scheme \<in> set uses_netloc) \<or>
                        take 2 url0 = ''//''
                     then ''//'' @ netloc @
                          (if url0 \<noteq> [] \<and> take 1 url0 \<noteq> ''/'' then ''/'' @ url0 else url0)
                     else url0);
             url2 = (if scheme \<noteq> [] then scheme @ '':'' @ url1 else url1);
             url3 = (if query \<noteq> [] then url2 @ ''?'' @ query else url2)
         in if fragment \<noteq> [] then url3 @ ''#'' @ fragment else url3))"

definition urlunparse :: "ParseResult \<Rightarrow> string" where
  "urlunparse components =
     (case components of (scheme, netloc, url, params, query, fragment) \<Rightarrow>
        urlunsplit (scheme, netloc,
                    (if params \<noteq> [] then url @ '';'' @ params else url), query, fragment))"

definition filter_inner :: "string list \<Rightarrow> string list" where
  "filter_inner segments =
     (case segments of
        [] \<Rightarrow> []
      | [s] \<Rightarrow> [s]
      | s # rest \<Rightarrow> s # filter (\<lambda>x. x \<noteq> []) (butlast rest) @ [last rest])"

definition resolve_step :: "string list \<Rightarrow> string \<Rightarrow> string list" where
  "resolve_step resolved_path seg =
     (if seg = ''..'' then butlast resolved_path
      else if seg = ''.'' then resolved_path
      else resolved_path @ [seg])"

text \<open>
  The path resolution at the end of \<^verbatim>\<open>urljoin\<close>: from \<^verbatim>\<open>base_parts = bpath.split('/')\<close> to
  \<^verbatim>\<open>'/'.join(resolved_path) or '/'\<close>.
\<close>

definition resolve_path :: "string \<Rightarrow> string \<Rightarrow> string" where
  "resolve_path bpath path =
     (let base_parts0 = str_split CHR ''/'' bpath;
          base_parts = (if last base_parts0 \<noteq> [] then butlast base_parts0
                        else base_parts0);
          segments = (if take 1 path = ''/'' then str_split CHR ''/'' path
                      else filter_inner (base_parts @ str_split CHR ''/'' path));
          resolved_path0 = foldl resolve_step [] segments;
          resolved_path = (if last segments \<in> {''.'', ''..''}
                           then resolved_path0 @ [[]] else resolved_path0);
          joined = str_join ''/'' resolved_path
      in if joined = [] then ''/'' else joined)"

definition urllib_urljoin :: "(string \<Rightarrow> bool) \<Rightarrow> string \<Rightarrow> string \<Rightarrow> error + string" where
  "urllib_urljoin check_bracketed_host base url =
     (if base = [] then Inr url
      else if url = [] then Inr base
      else
        case urlparse check_bracketed_host base '''' of
          Inl e \<Rightarrow> Inl e
        | Inr (bscheme, bnetloc, bpath, bparams, bquery, bfragment) \<Rightarrow>
        case urlparse check_bracketed_host url bscheme of
          Inl e \<Rightarrow> Inl e
        | Inr (scheme, netloc0, path, params, query, fragment) \<Rightarrow>
        if scheme \<noteq> bscheme \<or> scheme \<notin> set uses_relative then Inr url
        else if scheme \<in> set uses_netloc \<and> netloc0 \<noteq> []
        then Inr (urlunparse (scheme, netloc0, path, params, query, fragment))
        else
          (let netloc = (if scheme \<in> set uses_netloc then bnetloc else netloc0)
           in if path = [] \<and> params = []
              then Inr (urlunparse (scheme, netloc, bpath, bparams,
                                    (if query = [] then bquery else query), fragment))
              else Inr (urlunparse (scheme, netloc, resolve_path bpath path,
                                    params, query, fragment))))"

section \<open>Link builders and the catalog\<close>

text \<open>
  A link is the dictionary the builders return; \<open>link_title = None\<close> is a dictionary
  without a \<^verbatim>\<open>title\<close> key. The record \<open>Catalog\<close> keeps the keyword arguments the
  code passes to \<^verbatim>\<open>Catalog(...)\<close>. \<^verbatim>\<open>links\<close> is a list of \<open>Link option\<close>, since \<^verbatim>\<open>browsable_child_link\<close> returns
  \<^verbatim>\<open>None\<close> for a child with neither id. The values of \<^verbatim>\<open>Relations\<close> and \<^verbatim>\<open>MimeTypes\<close> are those
  of \<^verbatim>\<open>stac_pydantic\<close>; \<^verbatim>\<open>STAC_VERSION\<close> is a parameter.
\<close>

record Link =
  link_rel :: string
  link_type :: string
  link_title :: "string option"
  link_href :: string

record Catalog =
  cat_type :: string
  cat_id :: string
  cat_description :: string
  cat_stac_version :: string
  cat_links :: "Link option list"

definition Relations_child :: string where "Relations_child = ''child''"
definition Relations_item :: string where "Relations_item = ''item''"
definition Relations_root :: string where "Relations_root = ''root''"
definition Relations_self :: string where "Relations_self = ''self''"
definition MimeTypes_json :: string where "MimeTypes_json = ''application/json''"

text \<open>
  \<^verbatim>\<open>a or b\<close> on \<^verbatim>\<open>Optional[str]\<close> operands: \<open>a\<close> when it is truthy (neither \<^verbatim>\<open>None\<close> nor the
  empty string), else \<open>b\<close>.
\<close>

definition py_or :: "string option \<Rightarrow> string option \<Rightarrow> string option" where
  "py_or a b = (case a of Some s \<Rightarrow> if s \<noteq> [] then Some s else b | None \<Rightarrow> b)"

text \<open>
  The collection branch of \<^verbatim>\<open>browsable_child_link\<close> calls \<^verbatim>\<open>urljoin([base_url, ...])\<close>: one
  positional argument, a list, for a function whose parameters \<^verbatim>\<open>base\<close> and \<^verbatim>\<open>url\<close> are both
  required. Python raises \<^verbatim>\<open>TypeError\<close> when it binds the arguments, before the body of
  \<^verbatim>\<open>urljoin\<close> runs.
\<close>

definition urljoin_one_argument :: "string list \<Rightarrow> error + string" where
  "urljoin_one_argument parts = Inl TypeError"

definition browsable_child_link :: "node \<Rightarrow> string \<Rightarrow> error + Link option" where
  "browsable_child_link node base_url =
     (case collection_id node of
        Some cid \<Rightarrow>
          (case urljoin_one_argument [base_url, ''collections/'' @ cid] of
             Inl e \<Rightarrow> Inl e
           | Inr href \<Rightarrow>
               Inr (Some \<lparr>link_rel = Relations_child, link_type = MimeTypes_json,
                          link_title = py_or (title node) (collection_id node),
                          link_href = href\<rparr>))
      | None \<Rightarrow>
          (case catalog_id node of
             Some cid \<Rightarrow>
               Inr (Some \<lparr>link_rel = Relations_child, link_type = MimeTypes_json,
                          link_title = py_or (title node) (catalog_id node),
                          link_href = str_join ''/'' [str_strip ''/'' base_url, cid]\<rparr>)
           | None \<Rightarrow> Inr None))"

definition browsable_item_link ::
  "(string \<Rightarrow> string \<Rightarrow> error + string) \<Rightarrow> ItemPath \<Rightarrow> string \<Rightarrow> error + Link" where
  "browsable_item_link urljoin item_path base_url =
     (case urljoin base_url (''collections/'' @ fst item_path @ ''/items/'' @ snd item_path) of
        Inl e \<Rightarrow> Inl e
      | Inr href \<Rightarrow>
          Inr \<lparr>link_rel = Relations_item, link_type = MimeTypes_json,
               link_title = None, link_href = href\<rparr>)"

text \<open>
  \<^verbatim>\<open>Catalog(...)\<close> is the constructor of a model class of \<^verbatim>\<open>stac_pydantic\<close>, a library
  outside the module: it validates its keyword arguments and raises \<^verbatim>\<open>ValidationError\<close> when
  one of them fails. \<^verbatim>\<open>browsable_catalog\<close> takes this validation as the parameter
  \<open>validate\<close>: \<open>False\<close> where the constructor raises.

  \<open>stac_pydantic_validate\<close> states the checks of \<^verbatim>\<open>stac_pydantic\<close>'s \<^verbatim>\<open>Catalog\<close> and \<^verbatim>\<open>Link\<close>
  models that arguments of the types passed here can fail: \<^verbatim>\<open>type\<close> is the constant
  \<^verbatim>\<open>"Catalog"\<close>; \<^verbatim>\<open>id\<close>, \<^verbatim>\<open>description\<close> and \<^verbatim>\<open>stac_version\<close> have at least one character; every
  element of \<^verbatim>\<open>links\<close> is a link (not \<^verbatim>\<open>None\<close>) whose \<^verbatim>\<open>href\<close> and \<^verbatim>\<open>rel\<close> have at least
  one character.
\<close>

definition Link_validate :: "Link option \<Rightarrow> bool" where
  "Link_validate l =
     (case l of
        None \<Rightarrow> False
      | Some link \<Rightarrow> link_href link \<noteq> [] \<and> link_rel link \<noteq> [])"

definition stac_pydantic_validate :: "Catalog \<Rightarrow> bool" where
  "stac_pydantic_validate cat \<longleftrightarrow>
     cat_type cat = ''Catalog'' \<and> cat_id cat \<noteq> [] \<and> cat_description cat \<noteq> [] \<and>
     cat_stac_version cat \<noteq> [] \<and> list_all Link_validate (cat_links cat)"

definition browsable_catalog ::
  "(Catalog \<Rightarrow> bool) \<Rightarrow> (string \<Rightarrow> string \<Rightarrow> error + string) \<Rightarrow> string \<Rightarrow> node \<Rightarrow> string
     \<Rightarrow> string \<Rightarrow> error + Catalog" where
  "browsable_catalog validate urljoin STAC_VERSION node catalog_path base_url =
     (case comprehension (\<lambda>child. browsable_child_link child base_url) (children node) of
        Inl e \<Rightarrow> Inl e
      | Inr children_links \<Rightarrow>
     (case items node of
        None \<Rightarrow> Inl TypeError
      | Some node_items \<Rightarrow>
     (case comprehension (\<lambda>item. browsable_item_link urljoin item base_url) node_items of
        Inl e \<Rightarrow> Inl e
      | Inr item_links \<Rightarrow>
     (case urljoin base_url (''/catalogs/'' @ str_strip ''/'' catalog_path) of
        Inl e \<Rightarrow> Inl e
      | Inr self_href \<Rightarrow>
     (let standard_links =
            [\<lparr>link_rel = Relations_root, link_type = MimeTypes_json,
              link_title = None, link_href = base_url\<rparr>,
             \<lparr>link_rel = Relations_self, link_type = MimeTypes_json,
              link_title = None, link_href = self_href\<rparr>]
      in case catalog_id node of
           None \<Rightarrow> Inl KeyError
         | Some cid \<Rightarrow>
             (let catalog =
                    \<lparr>cat_type = ''Catalog'',
                     cat_id = cid,
                     cat_description =
                       (case py_or (description node)
                               (Some (''Generated description for '' @ cid)) of
                          Some d \<Rightarrow> d
                        | None \<Rightarrow> ''Generated description for '' @ cid),
                     cat_stac_version = STAC_VERSION,
                     cat_links =
                       children_links @ map Some item_links @ map Some standard_links\<rparr>
              in if validate catalog then Inr catalog else Inl ValidationError))))))"

section \<open>Identifiers and paths that a URL join leaves alone\<close>

text \<open>
  \<^verbatim>\<open>urljoin\<close> reads a relative reference as a URL: it removes tab, carriage return and line
  feed, cuts the reference at \<^verbatim>\<open>?\<close> and \<^verbatim>\<open>#\<close> (and the last segment at \<^verbatim>\<open>;\<close>), and resolves
  the segments \<^verbatim>\<open>.\<close> and \<^verbatim>\<open>..\<close>. A plain segment is an identifier that has none of these and no
  slash; a plain path is a path that has none of these, slashes apart.
\<close>

definition plain_segment :: "string \<Rightarrow> bool" where
  "plain_segment s \<longleftrightarrow>
     s \<noteq> ''.'' \<and> s \<noteq> ''..'' \<and>
     list_all (\<lambda>c. c \<notin> set ''/?#;'' \<and> c \<notin> set UNSAFE_URL_BYTES_TO_REMOVE) s"

definition plain_path :: "string \<Rightarrow> bool" where
  "plain_path p \<longleftrightarrow>
     list_all (\<lambda>c. c \<notin> set ''?#;'' \<and> c \<notin> set UNSAFE_URL_BYTES_TO_REMOVE) p \<and>
     list_all (\<lambda>seg. seg \<noteq> ''.'' \<and> seg \<noteq> ''..'') (str_split CHR ''/'' p)"

section \<open>Properties of the parser\<close>

lemma parse_hierarchy_children:
  "children (parse_hierarchy d) =
     (case d_children d of Some cs \<Rightarrow> map parse_hierarchy cs | None \<Rightarrow> [])"
  by (cases d)
     (simp add: Let_def CollectionNode_def CatalogNode_def BrowsableNode_def
        split: option.splits)

lemma parse_hierarchy_items: "items (parse_hierarchy d) = d_items d"
  by (cases d)
     (simp add: Let_def CollectionNode_def CatalogNode_def BrowsableNode_def
        split: option.splits)

text \<open>
  Claim C6. The parser classifies by key presence, \<^verbatim>\<open>collection_id\<close> first: an input with
  \<^verbatim>\<open>collection_id\<close> gives a \<^verbatim>\<open>CollectionNode\<close> with that id and no \<^verbatim>\<open>catalog_id\<close> key (also
  when the input has a \<^verbatim>\<open>catalog_id\<close>); an input with \<^verbatim>\<open>catalog_id\<close> and no
  \<^verbatim>\<open>collection_id\<close> gives a \<^verbatim>\<open>CatalogNode\<close> with the input's title and description; any
  other input gives a generic \<^verbatim>\<open>BrowsableNode\<close> with neither id.
\<close>

theorem parse_hierarchy_classification:
  "(d_collection_id d = Some c \<longrightarrow>
      parse_hierarchy d = CollectionNode c (children (parse_hierarchy d)) (d_items d) \<and>
      collection_id (parse_hierarchy d) = Some c \<and>
      catalog_id (parse_hierarchy d) = None) \<and>
   (d_collection_id d = None \<and> d_catalog_id d = Some c \<longrightarrow>
      parse_hierarchy d =
        CatalogNode c (children (parse_hierarchy d)) (d_items d) (d_title d) (d_description d) \<and>
      collection_id (parse_hierarchy d) = None \<and>
      catalog_id (parse_hierarchy d) = Some c \<and>
      title (parse_hierarchy d) = d_title d \<and>
      description (parse_hierarchy d) = d_description d) \<and>
   (d_collection_id d = None \<and> d_catalog_id d = None \<longrightarrow>
      parse_hierarchy d = BrowsableNode (children (parse_hierarchy d)) (d_items d) \<and>
      collection_id (parse_hierarchy d) = None \<and>
      catalog_id (parse_hierarchy d) = None)"
  by (cases d)
     (simp add: Let_def CollectionNode_def CatalogNode_def BrowsableNode_def
        split: option.splits)

theorem parse_hierarchy_classification_witness:
  "parse_hierarchy (Dict (Some ''c1'') (Some ''k'') (Some ''T'') None None None)
     = CollectionNode ''c1'' [] None \<and>
   catalog_id (parse_hierarchy (Dict (Some ''c1'') (Some ''k'') (Some ''T'') None None None))
     = None \<and>
   parse_hierarchy (Dict None (Some ''k'') (Some ''T'') (Some ''D'') None None)
     = CatalogNode ''k'' [] None (Some ''T'') (Some ''D'') \<and>
   parse_hierarchy (Dict None None (Some ''T'') None None (Some [])) = BrowsableNode [] (Some [])"
  using parse_hierarchy_classification
          [of "Dict (Some ''c1'') (Some ''k'') (Some ''T'') None None None" "''c1''"]
        parse_hierarchy_classification
          [of "Dict None (Some ''k'') (Some ''T'') (Some ''D'') None None" "''k''"]
        parse_hierarchy_classification
          [of "Dict None None (Some ''T'') None None (Some [])"]
  by (simp add: parse_hierarchy_children)

text \<open>
  Claim C8. An input without an \<^verbatim>\<open>items\<close> key gives a node whose \<^verbatim>\<open>items\<close> is Python's
  \<^verbatim>\<open>None\<close>, not an empty list, whichever of the three branches builds the node.
\<close>

theorem parse_hierarchy_items_absent:
  "d_items d = None \<Longrightarrow>
     items (parse_hierarchy d) = None \<and> items (parse_hierarchy d) \<noteq> Some []"
  by (simp add: parse_hierarchy_items)

theorem parse_hierarchy_items_absent_witness:
  "items (parse_hierarchy (Dict (Some ''c1'') None None None None None)) = None \<and>
   items (parse_hierarchy (Dict None (Some ''k'') None None None None)) = None \<and>
   items (parse_hierarchy (Dict None None None None None None)) = None"
  using parse_hierarchy_items_absent [of "Dict (Some ''c1'') None None None None None"]
        parse_hierarchy_items_absent [of "Dict None (Some ''k'') None None None None"]
        parse_hierarchy_items_absent [of "Dict None None None None None None"]
  by simp

text \<open>
  Claim C9. The parser recurses on \<^verbatim>\<open>children\<close>: with a \<^verbatim>\<open>children\<close> key, the node has as many
  children as the input, and the child at each index is the parse of the input's child at
  that index; without the key, the node's children are the empty list.
\<close>

theorem parse_hierarchy_recursive:
  "(d_children d = Some cs \<longrightarrow>
      length (children (parse_hierarchy d)) = length cs \<and>
      (\<forall>i < length cs. children (parse_hierarchy d) ! i = parse_hierarchy (cs ! i))) \<and>
   (d_children d = None \<longrightarrow> children (parse_hierarchy d) = [])"
  by (simp add: parse_hierarchy_children)

theorem parse_hierarchy_recursive_witness:
  "length (children (parse_hierarchy
      (Dict None (Some ''root'') None None
         (Some [Dict (Some ''c1'') None None None None None,
                Dict None (Some ''sub'') None None None None]) None))) = 2 \<and>
   children (parse_hierarchy
      (Dict None (Some ''root'') None None
         (Some [Dict (Some ''c1'') None None None None None,
                Dict None (Some ''sub'') None None None None]) None)) ! 1
     = parse_hierarchy (Dict None (Some ''sub'') None None None None) \<and>
   children (parse_hierarchy (Dict (Some ''c1'') None None None None None)) = []"
  using parse_hierarchy_recursive
          [of "Dict None (Some ''root'') None None
                 (Some [Dict (Some ''c1'') None None None None None,
                        Dict None (Some ''sub'') None None None None]) None"
              "[Dict (Some ''c1'') None None None None None,
                Dict None (Some ''sub'') None None None None]"]
        parse_hierarchy_recursive [of "Dict (Some ''c1'') None None None None None"]
  by simp

lemma comprehension_all_Inr:
  "\<forall>x \<in> set xs. f x = Inr (g x) \<Longrightarrow> comprehension f xs = Inr (map g xs)"
  by (induction xs) auto

lemma comprehension_one_error:
  assumes "\<exists>x \<in> set xs. f x = Inl e"
    and "\<forall>x \<in> set xs. f x = Inl e \<or> (\<exists>y. f x = Inr y)"
  shows "comprehension f xs = Inl e"
  using assms
proof (induction xs)
  case Nil
  then show ?case by simp
next
  case (Cons x xs)
  show ?case
  proof (cases "f x")
    case (Inl e')
    with Cons.prems(2) show ?thesis by auto
  next
    case (Inr y)
    with Cons.prems have "\<exists>x \<in> set xs. f x = Inl e"
      and "\<forall>x \<in> set xs. f x = Inl e \<or> (\<exists>y. f x = Inr y)"
      by auto
    then have "comprehension f xs = Inl e" by (rule Cons.IH)
    with Inr show ?thesis by simp
  qed
qed

lemma depth_child_le:
  "c \<in> set cs \<Longrightarrow> depth c \<le> foldr max (map depth cs) 0"
  by (induction cs) (auto simp: max_def)

lemma depth_child_reaches:
  "room < foldr max (map depth cs) 0 \<Longrightarrow> \<exists>c \<in> set cs. room < depth c"
  by (induction cs) (auto simp: max_def split: if_splits)

lemma depth_nested: "depth (nested n) = Suc n"
  by (induction n) auto

lemma parse_hierarchy_limited_returns:
  "depth d \<le> room \<Longrightarrow> parse_hierarchy_limited room d = Inr (parse_hierarchy d)"
proof (induction room arbitrary: d)
  case 0
  then show ?case by (cases d) (simp split: option.splits)
next
  case (Suc room)
  obtain coll cat t descr ch its where d: "d = Dict coll cat t descr ch its"
    by (cases d)
  show ?case
  proof (cases ch)
    case None
    with d show ?thesis by (simp add: Let_def split: option.splits)
  next
    case (Some cs)
    with Suc.prems d have "foldr max (map depth cs) 0 \<le> room" by simp
    then have "\<forall>c \<in> set cs. depth c \<le> room"
      using depth_child_le le_trans by blast
    then have "\<forall>c \<in> set cs. parse_hierarchy_limited room c = Inr (parse_hierarchy c)"
      using Suc.IH by blast
    then have "comprehension (parse_hierarchy_limited room) cs = Inr (map parse_hierarchy cs)"
      by (rule comprehension_all_Inr)
    with d Some show ?thesis by (simp add: Let_def split: option.splits)
  qed
qed

lemma parse_hierarchy_limited_raises:
  "room < depth d \<Longrightarrow> parse_hierarchy_limited room d = Inl RecursionError"
proof (induction room arbitrary: d)
  case 0
  then show ?case by simp
next
  case (Suc room)
  obtain coll cat t descr ch its where d: "d = Dict coll cat t descr ch its"
    by (cases d)
  show ?case
  proof (cases ch)
    case None
    with d Suc.prems show ?thesis by simp
  next
    case (Some cs)
    with Suc.prems d have "room < foldr max (map depth cs) 0" by simp
    then have "\<exists>c \<in> set cs. room < depth c" by (rule depth_child_reaches)
    then have some: "\<exists>c \<in> set cs. parse_hierarchy_limited room c = Inl RecursionError"
      using Suc.IH by blast
    have "parse_hierarchy_limited room c = Inl RecursionError \<or>
          (\<exists>y. parse_hierarchy_limited room c = Inr y)" for c
    proof (cases "depth c \<le> room")
      case True
      then show ?thesis using parse_hierarchy_limited_returns by blast
    next
      case False
      then have "room < depth c" by simp
      then show ?thesis using Suc.IH by blast
    qed
    then have "\<forall>c \<in> set cs. parse_hierarchy_limited room c = Inl RecursionError \<or>
                 (\<exists>y. parse_hierarchy_limited room c = Inr y)"
      by blast
    with some have "comprehension (parse_hierarchy_limited room) cs = Inl RecursionError"
      by (rule comprehension_one_error)
    with d Some show ?thesis by simp
  qed
qed

text \<open>
  Claim C10, amended. An input is a value of \<open>hierarchy_dict\<close>: a finite tree, so without
  cycles. On every such input the parse ends: it returns the node (the one \<open>parse_hierarchy\<close>
  denotes) when the interpreter has room for as many nested calls as the input is deep, and
  raises \<^verbatim>\<open>RecursionError\<close> when the input is deeper than that.
\<close>

theorem parse_hierarchy_limited_result:
  "parse_hierarchy_limited room d =
     (if depth d \<le> room then Inr (parse_hierarchy d) else Inl RecursionError)"
  by (simp add: parse_hierarchy_limited_returns parse_hierarchy_limited_raises)

theorem parse_hierarchy_limited_result_witness:
  "parse_hierarchy_limited 2
     (Dict None (Some ''root'') None None
        (Some [Dict (Some ''c1'') None None None None None]) (Some [(''c1'', ''item1'')]))
   = Inr (CatalogNode ''root'' [CollectionNode ''c1'' [] None] (Some [(''c1'', ''item1'')])
            None None) \<and>
   parse_hierarchy_limited 1
     (Dict None (Some ''root'') None None
        (Some [Dict (Some ''c1'') None None None None None]) (Some [(''c1'', ''item1'')]))
   = Inl RecursionError"
  using parse_hierarchy_limited_result
          [of 2 "Dict None (Some ''root'') None None
                   (Some [Dict (Some ''c1'') None None None None None])
                   (Some [(''c1'', ''item1'')])"]
        parse_hierarchy_limited_result
          [of 1 "Dict None (Some ''root'') None None
                   (Some [Dict (Some ''c1'') None None None None None])
                   (Some [(''c1'', ''item1'')])"]
  by simp

text \<open>
  The claim as stated fails for a deep input: a chain of 500 catalogs around a leaf is finite
  and acyclic and needs 501 nested calls, more than the default recursion limit leaves room
  for, so the parse raises \<^verbatim>\<open>RecursionError\<close> and returns no node.
\<close>

theorem parse_hierarchy_limited_result_counterexample:
  "parse_hierarchy_limited 500 (nested 500) = Inl RecursionError"
  by (rule parse_hierarchy_limited_raises) (simp add: depth_nested)

section \<open>Properties of the string operations\<close>

lemma sublist_across_separator:
  assumes "sep \<notin> set q"
  shows "sublist (q @ [sep]) (a @ sep # b) \<longleftrightarrow>
           sublist (q @ [sep]) (a @ [sep]) \<or> sublist (q @ [sep]) b"
proof
  assume "sublist (q @ [sep]) (a @ [sep]) \<or> sublist (q @ [sep]) b"
  then show "sublist (q @ [sep]) (a @ sep # b)"
  proof
    assume "sublist (q @ [sep]) (a @ [sep])"
    then obtain ps ss where "a @ [sep] = ps @ (q @ [sep]) @ ss"
      by (auto simp: sublist_def)
    then have "a @ sep # b = ps @ (q @ [sep]) @ (ss @ b)"
      by (metis append.assoc append_Cons append_Nil)
    then show ?thesis unfolding sublist_def by blast
  next
    assume "sublist (q @ [sep]) b"
    then obtain ps ss where "b = ps @ (q @ [sep]) @ ss"
      by (auto simp: sublist_def)
    then have "a @ sep # b = (a @ sep # ps) @ (q @ [sep]) @ ss" by simp
    then show ?thesis unfolding sublist_def by blast
  qed
next
  assume "sublist (q @ [sep]) (a @ sep # b)"
  then obtain ps ss where eq: "a @ sep # b = (ps @ q) @ sep # ss"
    by (auto simp: sublist_def)
  from append_eq_append_conv2 [THEN iffD1, OF eq] obtain us where
    "(a = (ps @ q) @ us \<and> us @ sep # b = sep # ss) \<or>
     (a @ us = ps @ q \<and> sep # b = us @ sep # ss)"
    by blast
  then consider
      (inside) us' where "a = ps @ q @ sep # us'"
    | (touch) "a = ps @ q"
    | (after) us' where "a @ sep # us' = ps @ q" "b = us' @ sep # ss"
    by (cases us) auto
  then show "sublist (q @ [sep]) (a @ [sep]) \<or> sublist (q @ [sep]) b"
  proof cases
    case inside
    then have "a @ [sep] = ps @ (q @ [sep]) @ (us' @ [sep])" by simp
    then show ?thesis unfolding sublist_def by blast
  next
    case touch
    then have "a @ [sep] = ps @ (q @ [sep]) @ []" by simp
    then show ?thesis unfolding sublist_def by blast
  next
    case after
    from append_eq_append_conv2 [THEN iffD1, OF after(1)] obtain vs where
      "(a = ps @ vs \<and> vs @ sep # us' = q) \<or> (a @ vs = ps \<and> sep # us' = vs @ q)"
      by blast
    with assms obtain vs' where "us' = vs' @ q"
      by (cases vs) auto
    with after(2) have "b = vs' @ (q @ [sep]) @ ss" by simp
    then show ?thesis unfolding sublist_def by blast
  qed
qed

lemma sublist_collections:
  "sublist ''collections/'' (a @ CHR ''/'' # b) \<longleftrightarrow>
     sublist ''collections/'' (a @ ''/'') \<or> sublist ''collections/'' b"
  using sublist_across_separator [of "CHR ''/''" "''collections''" a b] by simp

lemma str_strip_decompose:
  "\<exists>l r. s = l @ str_strip chars s @ r \<and> set l \<subseteq> set chars \<and> set r \<subseteq> set chars"
proof -
  let ?p = "\<lambda>c. c \<in> set chars"
  let ?m = "dropWhile ?p s"
  have 1: "s = takeWhile ?p s @ ?m" by simp
  have "rev ?m = takeWhile ?p (rev ?m) @ dropWhile ?p (rev ?m)" by simp
  then have "rev (rev ?m) = rev (takeWhile ?p (rev ?m) @ dropWhile ?p (rev ?m))" by simp
  then have 2: "?m = rev (dropWhile ?p (rev ?m)) @ rev (takeWhile ?p (rev ?m))"
    by (simp only: rev_rev_ident rev_append)
  have 3: "set (takeWhile ?p s) \<subseteq> set chars"
    by (auto dest: set_takeWhileD)
  have 4: "set (rev (takeWhile ?p (rev ?m))) \<subseteq> set chars"
    by (auto dest: set_takeWhileD)
  have "s = takeWhile ?p s @ str_strip chars s @ rev (takeWhile ?p (rev ?m))"
    using 1 2 by (simp add: str_strip_def str_rstrip_def str_lstrip_def)
  with 3 4 show ?thesis by blast
qed

lemma rev_dropWhile_rev_hd:
  assumes "xs \<noteq> []" and "\<not> P (hd xs)"
  shows "rev (dropWhile P (rev xs)) \<noteq> [] \<and> hd (rev (dropWhile P (rev xs))) = hd xs"
proof -
  from assms obtain x xs' where xs: "xs = x # xs'" and x: "\<not> P x"
    by (cases xs) auto
  have "dropWhile P (rev xs' @ [x]) = dropWhile P (rev xs') @ [x]
        \<or> dropWhile P (rev xs' @ [x]) = [x]"
    using x by (simp add: dropWhile_append)
  with xs x show ?thesis by auto
qed

lemma str_strip_ends:
  assumes "str_strip chars s \<noteq> []"
  shows "hd (str_strip chars s) \<notin> set chars" and "last (str_strip chars s) \<notin> set chars"
proof -
  let ?p = "\<lambda>c. c \<in> set chars"
  let ?m = "dropWhile ?p s"
  from assms have ne: "dropWhile ?p (rev ?m) \<noteq> []"
    by (simp add: str_strip_def str_rstrip_def str_lstrip_def)
  then have "\<not> ?p (hd (dropWhile ?p (rev ?m)))" by (rule hd_dropWhile)
  then show "last (str_strip chars s) \<notin> set chars"
    using ne by (simp add: str_strip_def str_rstrip_def str_lstrip_def last_rev)
  have mne: "?m \<noteq> []"
  proof
    assume "?m = []"
    then have "dropWhile ?p (rev ?m) = []" by (simp only: rev.simps dropWhile.simps)
    with ne show False by contradiction
  qed
  then have "\<not> ?p (hd ?m)" by (rule hd_dropWhile)
  with mne have "hd (rev (dropWhile ?p (rev ?m))) = hd ?m"
    using rev_dropWhile_rev_hd [of ?m ?p] by simp
  with \<open>\<not> ?p (hd ?m)\<close> show "hd (str_strip chars s) \<notin> set chars"
    by (simp add: str_strip_def str_rstrip_def str_lstrip_def)
qed

lemma str_split_not_Nil: "str_split sep s \<noteq> []"
  by (induction s) (auto split: list.splits)

lemma str_join_split: "str_join [sep] (str_split sep s) = s"
proof (induction s)
  case Nil
  then show ?case by simp
next
  case (Cons c cs)
  obtain w ws where ws: "str_split sep cs = w # ws"
    using str_split_not_Nil [of sep cs] by (cases "str_split sep cs") auto
  with Cons show ?case by (cases ws) auto
qed

lemma str_split_no_sep: "sep \<notin> set s \<Longrightarrow> str_split sep s = [s]"
  by (induction s) auto

lemma str_split_append_sep:
  "sep \<notin> set a \<Longrightarrow> str_split sep (a @ sep # b) = a # str_split sep b"
  by (induction a) auto

lemma str_join_append:
  "zs \<noteq> [] \<Longrightarrow> ws \<noteq> [] \<Longrightarrow>
     str_join sep (zs @ ws) = str_join sep zs @ sep @ str_join sep ws"
proof (induction zs)
  case Nil
  then show ?case by simp
next
  case (Cons z zs)
  show ?case
  proof (cases zs)
    case Nil
    with Cons.prems show ?thesis by (cases ws) auto
  next
    case (Cons z' zs')
    with Cons.IH Cons.prems show ?thesis by simp
  qed
qed

lemma str_join_suffix:
  "ws \<noteq> [] \<Longrightarrow> suffix (str_join sep ws) (str_join sep (zs @ ws))"
  by (cases "zs = []") (auto simp: str_join_append suffix_def)

section \<open>Properties of \<^verbatim>\<open>urljoin\<close>\<close>

lemma foldl_resolve_step_plain:
  "list_all (\<lambda>seg. seg \<noteq> ''.'' \<and> seg \<noteq> ''..'') segs \<Longrightarrow>
     foldl resolve_step acc segs = acc @ segs"
  by (induction segs arbitrary: acc) (auto simp: resolve_step_def)

lemma urlunparse_suffix:
  "suffix path (urlunparse (scheme, netloc, path, [], [], []))"
  by (auto simp: urlunparse_def urlunsplit_def Let_def suffix_def)

lemma urlsplit_path_only:
  assumes "str_lstrip WHATWG_C0_CONTROL_OR_SPACE url = url"
    and "filter (\<lambda>c. c \<notin> set UNSAFE_URL_BYTES_TO_REMOVE) url = url"
    and "\<not> list_all (\<lambda>c. c \<in> set scheme_chars) (takeWhile (\<lambda>c. c \<noteq> CHR '':'') url) \<or>
         hd url \<notin> set (ascii_lowercase @ ascii_uppercase)"
    and "take 2 url \<noteq> ''//''"
    and "CHR ''#'' \<notin> set url" and "CHR ''?'' \<notin> set url"
  shows "urlsplit chk url s =
           Inr (filter (\<lambda>c. c \<notin> set UNSAFE_URL_BYTES_TO_REMOVE)
                  (str_strip WHATWG_C0_CONTROL_OR_SPACE s), [], url, [], [])"
proof -
  have no_scheme:
    "\<not> (CHR '':'' \<in> set url \<and>
        takeWhile (\<lambda>c. c \<noteq> CHR '':'') url \<noteq> [] \<and>
        hd url \<in> set (ascii_lowercase @ ascii_uppercase) \<and>
        list_all (\<lambda>c. c \<in> set scheme_chars) (takeWhile (\<lambda>c. c \<noteq> CHR '':'') url))"
    using assms(3) by blast
  show ?thesis
    by (simp only: urlsplit_def Let_def assms(1) assms(2) no_scheme if_False prod.case
          assms(4) assms(5) assms(6) list.set empty_iff simp_thms)
qed

lemma urlsplit_no_netloc:
  assumes "str_lstrip WHATWG_C0_CONTROL_OR_SPACE url = url"
    and "\<not> list_all (\<lambda>c. c \<in> set scheme_chars)
             (takeWhile (\<lambda>c. c \<noteq> CHR '':'')
                (filter (\<lambda>c. c \<notin> set UNSAFE_URL_BYTES_TO_REMOVE) url)) \<or>
         hd (filter (\<lambda>c. c \<notin> set UNSAFE_URL_BYTES_TO_REMOVE) url)
           \<notin> set (ascii_lowercase @ ascii_uppercase)"
    and "take 2 (filter (\<lambda>c. c \<notin> set UNSAFE_URL_BYTES_TO_REMOVE) url) \<noteq> ''//''"
  shows "\<exists>r. urlsplit chk url s = Inr r"
proof -
  let ?u = "filter (\<lambda>c. c \<notin> set UNSAFE_URL_BYTES_TO_REMOVE) url"
  have no_scheme:
    "\<not> (CHR '':'' \<in> set ?u \<and>
        takeWhile (\<lambda>c. c \<noteq> CHR '':'') ?u \<noteq> [] \<and>
        hd ?u \<in> set (ascii_lowercase @ ascii_uppercase) \<and>
        list_all (\<lambda>c. c \<in> set scheme_chars) (takeWhile (\<lambda>c. c \<noteq> CHR '':'') ?u))"
    using assms(2) by blast
  show ?thesis
    apply (simp only: urlsplit_def Let_def assms(1) no_scheme if_False prod.case
          assms(3) list.set empty_iff simp_thms)
    apply (simp only: split_beta sum.inject simp_thms)
    done
qed

lemma urlparse_of_urlsplit:
  assumes "urlsplit chk url s = Inr (scheme, netloc, path, query, fragment)"
    and "CHR '';'' \<notin> set path"
  shows "urlparse chk url s = Inr (scheme, netloc, path, [], query, fragment)"
  using assms by (simp add: urlparse_def)

lemma urlparse_ok_of_urlsplit:
  assumes "\<exists>r. urlsplit chk url s = Inr r"
  shows "\<exists>r. urlparse chk url s = Inr r"
  using assms by (auto simp: urlparse_def Let_def split: prod.splits)

lemma urlsplit_collections_ok:
  "\<exists>r. urlsplit chk (''collections/'' @ rest) s = Inr r"
  by (rule urlsplit_no_netloc)
     (simp_all add: str_lstrip_def WHATWG_C0_CONTROL_OR_SPACE_def
        UNSAFE_URL_BYTES_TO_REMOVE_def scheme_chars_def ascii_lowercase_def
        ascii_uppercase_def)

lemma urllib_urljoin_ok:
  assumes "urlparse chk base [] = Inr pb"
    and "\<And>s. \<exists>r. urlparse chk url s = Inr r"
  shows "\<exists>h. urllib_urljoin chk base url = Inr h"
proof -
  obtain bscheme bnetloc bpath bparams bquery bfragment
    where pb: "pb = (bscheme, bnetloc, bpath, bparams, bquery, bfragment)"
    by (cases pb) auto
  from assms(2) obtain scheme netloc path params query fragment
    where pu: "urlparse chk url bscheme = Inr (scheme, netloc, path, params, query, fragment)"
    by (metis prod_cases6)
  show ?thesis
    using assms(1) pb pu by (simp add: urllib_urljoin_def Let_def)
qed

lemma urllib_urljoin_path_only:
  assumes "\<And>s. \<exists>s'. urlparse chk url s = Inr (s', [], url, [], [], [])"
    and "url \<noteq> []"
    and "urllib_urljoin chk base url = Inr h"
  shows "h = url \<or>
         (\<exists>scheme netloc bpath. h = urlunparse (scheme, netloc, resolve_path bpath url, [], [], []))"
proof (cases "base = []")
  case True
  with assms(3) show ?thesis by (simp add: urllib_urljoin_def)
next
  case False
  show ?thesis
  proof (cases "urlparse chk base []")
    case (Inl e)
    with False assms(2,3) show ?thesis by (simp add: urllib_urljoin_def)
  next
    case (Inr pb)
    obtain bscheme bnetloc bpath bparams bquery bfragment
      where pb: "pb = (bscheme, bnetloc, bpath, bparams, bquery, bfragment)"
      by (cases pb) auto
    from assms(1) obtain s' where
      pu: "urlparse chk url bscheme = Inr (s', [], url, [], [], [])"
      by blast
    from False assms(2,3) Inr pb pu show ?thesis
      by (auto simp: urllib_urljoin_def Let_def split: if_splits)
  qed
qed

lemma urllib_urljoin_suffix:
  assumes "\<And>s. \<exists>s'. urlparse chk url s = Inr (s', [], url, [], [], [])"
    and "url \<noteq> []"
    and "urllib_urljoin chk base url = Inr h"
    and "\<And>bpath. suffix x (resolve_path bpath url)"
    and "suffix x url"
  shows "suffix x h"
proof -
  from urllib_urljoin_path_only [OF assms(1) assms(2) assms(3)]
  consider "h = url"
    | scheme netloc bpath where
        "h = urlunparse (scheme, netloc, resolve_path bpath url, [], [], [])"
    by blast
  then show ?thesis
  proof cases
    case 1
    with assms(5) show ?thesis by simp
  next
    case 2
    have "suffix (resolve_path bpath url) h"
      unfolding 2 by (rule urlunparse_suffix)
    with assms(4) [of bpath] show ?thesis
      using suffix_order.order_trans by blast
  qed
qed

lemma resolve_path_absolute:
  assumes "take 1 path = ''/''"
    and "list_all (\<lambda>seg. seg \<noteq> ''.'' \<and> seg \<noteq> ''..'') (str_split CHR ''/'' path)"
  shows "resolve_path bpath path = path"
proof -
  let ?segs = "str_split CHR ''/'' path"
  have ne: "?segs \<noteq> []" by (rule str_split_not_Nil)
  have fold: "foldl resolve_step [] ?segs = ?segs"
    using foldl_resolve_step_plain [OF assms(2), of "[]"] by simp
  have "last ?segs \<in> set ?segs" using ne by simp
  with assms(2) have last: "last ?segs \<notin> {''.'', ''..''}"
    by (auto simp: list_all_iff)
  have join: "str_join ''/'' ?segs = path"
    using str_join_split [of "CHR ''/''" path] by simp
  from assms(1) have "path \<noteq> []" by auto
  with assms(1) fold last join show ?thesis
    by (simp add: resolve_path_def Let_def)
qed

lemma filter_inner_append:
  assumes "segs \<noteq> []" and "list_all (\<lambda>seg. seg \<noteq> []) (butlast segs)"
  shows "\<exists>ys. filter_inner (bp @ segs) = ys @ segs"
proof (cases bp)
  case Nil
  have "filter_inner segs = segs"
  proof (cases segs)
    case Nil
    with assms(1) show ?thesis by simp
  next
    case segs: (Cons s rest)
    show ?thesis
    proof (cases rest)
      case Nil
      with segs show ?thesis by (simp add: filter_inner_def)
    next
      case (Cons r rest')
      with segs assms(2) have "list_all (\<lambda>seg. seg \<noteq> []) (butlast rest)" by simp
      then have "filter (\<lambda>x. x \<noteq> []) (butlast rest) = butlast rest"
        by (simp add: list_all_iff)
      with Cons segs show ?thesis
        by (simp add: filter_inner_def)
    qed
  qed
  with Nil show ?thesis by simp
next
  case (Cons b bp')
  have f: "filter (\<lambda>x. x \<noteq> []) (butlast segs) = butlast segs"
    using assms(2) by (simp add: list_all_iff)
  have rest: "bp' @ segs \<noteq> []" using assms(1) by simp
  then obtain r rest' where r: "bp' @ segs = r # rest'" by (cases "bp' @ segs") auto
  have "filter_inner (b # bp' @ segs) =
          b # filter (\<lambda>x. x \<noteq> []) (butlast (bp' @ segs)) @ [last (bp' @ segs)]"
    using r by (simp add: filter_inner_def)
  also have "\<dots> = b # filter (\<lambda>x. x \<noteq> []) bp' @ butlast segs @ [last segs]"
    using assms(1) f by (simp add: butlast_append)
  also have "\<dots> = (b # filter (\<lambda>x. x \<noteq> []) bp') @ segs"
    using assms(1) by simp
  finally show ?thesis using Cons by auto
qed

lemma resolve_path_relative:
  assumes "take 1 path \<noteq> ''/''"
    and "list_all (\<lambda>seg. seg \<noteq> ''.'' \<and> seg \<noteq> ''..'') (str_split CHR ''/'' path)"
    and "list_all (\<lambda>seg. seg \<noteq> []) (butlast (str_split CHR ''/'' path))"
    and "path \<noteq> []"
  shows "suffix path (resolve_path bpath path)"
proof -
  let ?segs = "str_split CHR ''/'' path"
  let ?bp0 = "str_split CHR ''/'' bpath"
  let ?bp = "if last ?bp0 \<noteq> [] then butlast ?bp0 else ?bp0"
  have ne: "?segs \<noteq> []" by (rule str_split_not_Nil)
  from filter_inner_append [OF ne assms(3)] obtain ys where
    ys: "filter_inner (?bp @ ?segs) = ys @ ?segs" by blast
  have fold: "foldl resolve_step [] (ys @ ?segs) = foldl resolve_step [] ys @ ?segs"
    using foldl_resolve_step_plain [OF assms(2)] by simp
  have "last ?segs \<in> set ?segs" using ne by simp
  with assms(2) have last: "last (ys @ ?segs) \<notin> {''.'', ''..''}"
    using ne by (auto simp: list_all_iff)
  have join: "str_join ''/'' ?segs = path"
    using str_join_split [of "CHR ''/''" path] by simp
  have suf: "suffix path (str_join ''/'' (foldl resolve_step [] ys @ ?segs))"
    using str_join_suffix [OF ne, of "''/''" "foldl resolve_step [] ys"] join by simp
  with assms(4) have "str_join ''/'' (foldl resolve_step [] ys @ ?segs) \<noteq> []"
    by (auto simp: suffix_def)
  with assms(1) ys fold last suf show ?thesis
    unfolding resolve_path_def Let_def by (simp only: if_False if_True simp_thms)
qed

lemma str_split_item_path:
  assumes "CHR ''/'' \<notin> set c" and "CHR ''/'' \<notin> set i"
  shows "str_split CHR ''/'' (''collections/'' @ c @ ''/items/'' @ i)
           = [''collections'', c, ''items'', i]"
proof -
  have 0: "str_split CHR ''/'' i = [i]"
    using assms(2) by (rule str_split_no_sep)
  have 1: "str_split CHR ''/'' (''items'' @ CHR ''/'' # i) = ''items'' # str_split CHR ''/'' i"
    by (rule str_split_append_sep) simp
  have 2: "str_split CHR ''/'' (c @ CHR ''/'' # (''items'' @ CHR ''/'' # i))
             = c # str_split CHR ''/'' (''items'' @ CHR ''/'' # i)"
    using assms(1) by (rule str_split_append_sep)
  have 3: "str_split CHR ''/'' (''collections'' @ CHR ''/'' # (c @ CHR ''/'' # (''items'' @ CHR ''/'' # i)))
             = ''collections'' # str_split CHR ''/'' (c @ CHR ''/'' # (''items'' @ CHR ''/'' # i))"
    by (rule str_split_append_sep) simp
  have "''collections/'' @ c @ ''/items/'' @ i
          = ''collections'' @ CHR ''/'' # (c @ CHR ''/'' # (''items'' @ CHR ''/'' # i))"
    by simp
  then show ?thesis
    by (simp only: 3 2 1 0)
qed

lemma plain_segment_chars:
  assumes "plain_segment s"
  shows "CHR ''/'' \<notin> set s" and "CHR ''?'' \<notin> set s" and "CHR ''#'' \<notin> set s"
    and "CHR '';'' \<notin> set s"
    and "filter (\<lambda>c. c \<notin> set UNSAFE_URL_BYTES_TO_REMOVE) s = s"
  using assms by (auto simp: plain_segment_def list_all_iff filter_id_conv)

lemma urlparse_item_path:
  assumes "plain_segment c" and "plain_segment i"
  shows "\<exists>s'. urlparse chk (''collections/'' @ c @ ''/items/'' @ i) s
                 = Inr (s', [], ''collections/'' @ c @ ''/items/'' @ i, [], [], [])"
proof -
  let ?u = "''collections/'' @ c @ ''/items/'' @ i"
  have "urlsplit chk ?u s =
          Inr (filter (\<lambda>c. c \<notin> set UNSAFE_URL_BYTES_TO_REMOVE)
                 (str_strip WHATWG_C0_CONTROL_OR_SPACE s), [], ?u, [], [])"
  proof (rule urlsplit_path_only)
    show "str_lstrip WHATWG_C0_CONTROL_OR_SPACE ?u = ?u"
      by (simp add: str_lstrip_def WHATWG_C0_CONTROL_OR_SPACE_def)
    show "filter (\<lambda>c. c \<notin> set UNSAFE_URL_BYTES_TO_REMOVE) ?u = ?u"
      using plain_segment_chars(5) [OF assms(1)] plain_segment_chars(5) [OF assms(2)]
      by (simp add: UNSAFE_URL_BYTES_TO_REMOVE_def)
    show "\<not> list_all (\<lambda>c. c \<in> set scheme_chars) (takeWhile (\<lambda>c. c \<noteq> CHR '':'') ?u) \<or>
          hd ?u \<notin> set (ascii_lowercase @ ascii_uppercase)"
      by (simp add: scheme_chars_def ascii_lowercase_def ascii_uppercase_def)
    show "take 2 ?u \<noteq> ''//''" by simp
    show "CHR ''#'' \<notin> set ?u"
      using plain_segment_chars(3) [OF assms(1)] plain_segment_chars(3) [OF assms(2)] by simp
    show "CHR ''?'' \<notin> set ?u"
      using plain_segment_chars(2) [OF assms(1)] plain_segment_chars(2) [OF assms(2)] by simp
  qed
  moreover have "CHR '';'' \<notin> set ?u"
    using plain_segment_chars(4) [OF assms(1)] plain_segment_chars(4) [OF assms(2)] by simp
  ultimately show ?thesis
    using urlparse_of_urlsplit by blast
qed

lemma resolve_path_item_path:
  assumes "plain_segment c" and "c \<noteq> []" and "plain_segment i"
  shows "suffix (''collections/'' @ c @ ''/items/'' @ i)
           (resolve_path bpath (''collections/'' @ c @ ''/items/'' @ i))"
proof (rule resolve_path_relative)
  have split: "str_split CHR ''/'' (''collections/'' @ c @ ''/items/'' @ i)
                 = [''collections'', c, ''items'', i]"
    using plain_segment_chars(1) [OF assms(1)] plain_segment_chars(1) [OF assms(3)]
    by (rule str_split_item_path)
  show "take 1 (''collections/'' @ c @ ''/items/'' @ i) \<noteq> ''/''" by simp
  show "list_all (\<lambda>seg. seg \<noteq> ''.'' \<and> seg \<noteq> ''..'')
          (str_split CHR ''/'' (''collections/'' @ c @ ''/items/'' @ i))"
    unfolding split using assms(1,3) by (simp add: plain_segment_def)
  show "list_all (\<lambda>seg. seg \<noteq> [])
          (butlast (str_split CHR ''/'' (''collections/'' @ c @ ''/items/'' @ i)))"
    unfolding split using assms(2) by simp
  show "''collections/'' @ c @ ''/items/'' @ i \<noteq> []" by simp
qed

lemma urllib_urljoin_item_path_ok:
  assumes "urlparse chk base_url [] = Inr pb"
  shows "\<exists>href. urllib_urljoin chk base_url (''collections/'' @ c @ ''/items/'' @ i) = Inr href"
  using assms
  by (rule urllib_urljoin_ok) (rule urlparse_ok_of_urlsplit, rule urlsplit_collections_ok)

lemma urllib_urljoin_item_path_suffix:
  assumes "plain_segment c" and "c \<noteq> []" and "plain_segment i"
    and "urllib_urljoin chk base_url (''collections/'' @ c @ ''/items/'' @ i) = Inr href"
  shows "suffix (''collections/'' @ c @ ''/items/'' @ i) href"
proof (rule urllib_urljoin_suffix [OF _ _ assms(4)])
  show "\<exists>s'. urlparse chk (''collections/'' @ c @ ''/items/'' @ i) s
               = Inr (s', [], ''collections/'' @ c @ ''/items/'' @ i, [], [], [])" for s
    using assms(1,3) by (rule urlparse_item_path)
  show "''collections/'' @ c @ ''/items/'' @ i \<noteq> []" by simp
  show "suffix (''collections/'' @ c @ ''/items/'' @ i)
          (resolve_path bpath (''collections/'' @ c @ ''/items/'' @ i))" for bpath
    using assms(1,2,3) by (rule resolve_path_item_path)
  show "suffix (''collections/'' @ c @ ''/items/'' @ i) (''collections/'' @ c @ ''/items/'' @ i)"
    by simp
qed

lemma plain_path_chars:
  assumes "plain_path p"
  shows "CHR ''?'' \<notin> set p" and "CHR ''#'' \<notin> set p" and "CHR '';'' \<notin> set p"
    and "filter (\<lambda>c. c \<notin> set UNSAFE_URL_BYTES_TO_REMOVE) p = p"
    and "list_all (\<lambda>seg. seg \<noteq> ''.'' \<and> seg \<noteq> ''..'') (str_split CHR ''/'' p)"
  using assms by (auto simp: plain_path_def list_all_iff filter_id_conv)

lemma urlparse_catalogs:
  assumes "plain_path p"
  shows "\<exists>s'. urlparse chk (''/catalogs/'' @ p) s = Inr (s', [], ''/catalogs/'' @ p, [], [], [])"
proof -
  let ?u = "''/catalogs/'' @ p"
  have "urlsplit chk ?u s =
          Inr (filter (\<lambda>c. c \<notin> set UNSAFE_URL_BYTES_TO_REMOVE)
                 (str_strip WHATWG_C0_CONTROL_OR_SPACE s), [], ?u, [], [])"
  proof (rule urlsplit_path_only)
    show "str_lstrip WHATWG_C0_CONTROL_OR_SPACE ?u = ?u"
      by (simp add: str_lstrip_def WHATWG_C0_CONTROL_OR_SPACE_def)
    show "filter (\<lambda>c. c \<notin> set UNSAFE_URL_BYTES_TO_REMOVE) ?u = ?u"
      using plain_path_chars(4) [OF assms]
      by (simp add: UNSAFE_URL_BYTES_TO_REMOVE_def)
    show "\<not> list_all (\<lambda>c. c \<in> set scheme_chars) (takeWhile (\<lambda>c. c \<noteq> CHR '':'') ?u) \<or>
          hd ?u \<notin> set (ascii_lowercase @ ascii_uppercase)"
      by (simp add: scheme_chars_def ascii_lowercase_def ascii_uppercase_def)
    show "take 2 ?u \<noteq> ''//''" by simp
    show "CHR ''#'' \<notin> set ?u" using plain_path_chars(2) [OF assms] by simp
    show "CHR ''?'' \<notin> set ?u" using plain_path_chars(1) [OF assms] by simp
  qed
  moreover have "CHR '';'' \<notin> set ?u" using plain_path_chars(3) [OF assms] by simp
  ultimately show ?thesis
    using urlparse_of_urlsplit by blast
qed

lemma resolve_path_catalogs:
  assumes "plain_path p"
  shows "resolve_path bpath (''/catalogs/'' @ p) = ''/catalogs/'' @ p"
proof (rule resolve_path_absolute)
  show "take 1 (''/catalogs/'' @ p) = ''/''" by simp
  have "str_split CHR ''/'' ([] @ CHR ''/'' # (''catalogs'' @ CHR ''/'' # p))
          = [] # str_split CHR ''/'' (''catalogs'' @ CHR ''/'' # p)"
    by (rule str_split_append_sep) simp
  moreover have "str_split CHR ''/'' (''catalogs'' @ CHR ''/'' # p)
                   = ''catalogs'' # str_split CHR ''/'' p"
    by (rule str_split_append_sep) simp
  ultimately have "str_split CHR ''/'' (''/catalogs/'' @ p)
                     = [] # ''catalogs'' # str_split CHR ''/'' p"
    by simp
  then show "list_all (\<lambda>seg. seg \<noteq> ''.'' \<and> seg \<noteq> ''..'')
               (str_split CHR ''/'' (''/catalogs/'' @ p))"
    using plain_path_chars(5) [OF assms] by simp
qed

lemma urllib_urljoin_catalogs_suffix:
  assumes "plain_path p"
    and "urllib_urljoin chk base_url (''/catalogs/'' @ p) = Inr href"
  shows "suffix (''/catalogs/'' @ p) href"
proof (rule urllib_urljoin_suffix [OF _ _ assms(2)])
  show "\<exists>s'. urlparse chk (''/catalogs/'' @ p) s = Inr (s', [], ''/catalogs/'' @ p, [], [], [])"
    for s using assms(1) by (rule urlparse_catalogs)
  show "''/catalogs/'' @ p \<noteq> []" by simp
  show "suffix (''/catalogs/'' @ p) (resolve_path bpath (''/catalogs/'' @ p))" for bpath
    using resolve_path_catalogs [OF assms(1)] by simp
  show "suffix (''/catalogs/'' @ p) (''/catalogs/'' @ p)" by simp
qed

section \<open>Properties of the link builders and the catalog\<close>

lemma comprehension_Inr_D:
  "comprehension f xs = Inr ys \<Longrightarrow> map f xs = map Inr ys"
  by (induction xs arbitrary: ys) (auto split: sum.splits)

lemma comprehension_child_links_TypeError:
  "\<exists>child \<in> set cs. collection_id child \<noteq> None \<Longrightarrow>
     comprehension (\<lambda>child. browsable_child_link child base_url) cs = Inl TypeError"
proof (induction cs)
  case Nil
  then show ?case by simp
next
  case (Cons c cs)
  show ?case
  proof (cases "collection_id c")
    case (Some cid)
    then show ?thesis
      by (simp add: browsable_child_link_def urljoin_one_argument_def)
  next
    case None
    with Cons.prems have "\<exists>child \<in> set cs. collection_id child \<noteq> None" by auto
    then have "comprehension (\<lambda>child. browsable_child_link child base_url) cs = Inl TypeError"
      by (rule Cons.IH)
    with None show ?thesis
      by (simp add: browsable_child_link_def split: option.splits)
  qed
qed

lemma comprehension_child_links:
  "\<forall>child \<in> set cs. collection_id child = None \<Longrightarrow>
     comprehension (\<lambda>child. browsable_child_link child base_url) cs =
       Inr (map (\<lambda>child. case catalog_id child of
                    Some cid \<Rightarrow>
                      Some \<lparr>link_rel = Relations_child, link_type = MimeTypes_json,
                            link_title = py_or (title child) (catalog_id child),
                            link_href = str_join ''/'' [str_strip ''/'' base_url, cid]\<rparr>
                  | None \<Rightarrow> None) cs)"
  by (induction cs) (auto simp: browsable_child_link_def split: option.splits)

lemma browsable_catalog_unfold:
  assumes "\<forall>child \<in> set (children node). collection_id child = None"
    and "items node = Some node_items"
    and "comprehension (\<lambda>item. browsable_item_link urljoin item base_url) node_items
           = Inr item_links"
    and "urljoin base_url (''/catalogs/'' @ str_strip ''/'' catalog_path) = Inr self_href"
    and "catalog_id node = Some cid"
  shows "browsable_catalog validate urljoin STAC_VERSION node catalog_path base_url =
     (let catalog =
            \<lparr>cat_type = ''Catalog'',
             cat_id = cid,
             cat_description =
               (case description node of
                  Some d \<Rightarrow> if d \<noteq> [] then d else ''Generated description for '' @ cid
                | None \<Rightarrow> ''Generated description for '' @ cid),
             cat_stac_version = STAC_VERSION,
             cat_links =
               map (\<lambda>child. case catalog_id child of
                       Some cid \<Rightarrow>
                         Some \<lparr>link_rel = Relations_child, link_type = MimeTypes_json,
                               link_title = py_or (title child) (catalog_id child),
                               link_href = str_join ''/'' [str_strip ''/'' base_url, cid]\<rparr>
                     | None \<Rightarrow> None) (children node)
               @ map Some item_links
               @ [Some \<lparr>link_rel = Relations_root, link_type = MimeTypes_json,
                        link_title = None, link_href = base_url\<rparr>,
                  Some \<lparr>link_rel = Relations_self, link_type = MimeTypes_json,
                        link_title = None, link_href = self_href\<rparr>]\<rparr>
      in if validate catalog then Inr catalog else Inl ValidationError)"
  using assms
  by (simp add: browsable_catalog_def comprehension_child_links py_or_def Let_def
        split: option.splits)

lemma browsable_catalog_Inr_D:
  assumes "browsable_catalog validate urljoin STAC_VERSION node catalog_path base_url = Inr cat"
  shows "\<exists>node_items item_links self_href cid.
           (\<forall>child \<in> set (children node). collection_id child = None) \<and>
           items node = Some node_items \<and>
           comprehension (\<lambda>item. browsable_item_link urljoin item base_url) node_items
             = Inr item_links \<and>
           urljoin base_url (''/catalogs/'' @ str_strip ''/'' catalog_path) = Inr self_href \<and>
           catalog_id node = Some cid \<and>
           validate cat \<and>
           cat_description cat =
             (case description node of
                Some d \<Rightarrow> if d \<noteq> [] then d else ''Generated description for '' @ cid
              | None \<Rightarrow> ''Generated description for '' @ cid) \<and>
           cat_links cat =
             map (\<lambda>child. case catalog_id child of
                     Some cid \<Rightarrow>
                       Some \<lparr>link_rel = Relations_child, link_type = MimeTypes_json,
                             link_title = py_or (title child) (catalog_id child),
                             link_href = str_join ''/'' [str_strip ''/'' base_url, cid]\<rparr>
                   | None \<Rightarrow> None) (children node)
             @ map Some item_links
             @ [Some \<lparr>link_rel = Relations_root, link_type = MimeTypes_json,
                      link_title = None, link_href = base_url\<rparr>,
                Some \<lparr>link_rel = Relations_self, link_type = MimeTypes_json,
                      link_title = None, link_href = self_href\<rparr>]"
proof -
  have kids: "\<forall>child \<in> set (children node). collection_id child = None"
  proof (rule ccontr)
    assume "\<not> ?thesis"
    then have "\<exists>child \<in> set (children node). collection_id child \<noteq> None" by simp
    then have "browsable_catalog validate urljoin STAC_VERSION node catalog_path base_url
                 = Inl TypeError"
      by (simp add: browsable_catalog_def comprehension_child_links_TypeError)
    with assms show False by simp
  qed
  from assms kids obtain node_items where its: "items node = Some node_items"
    by (cases "items node") (auto simp: browsable_catalog_def comprehension_child_links)
  from assms kids its obtain item_links where
    il: "comprehension (\<lambda>item. browsable_item_link urljoin item base_url) node_items
           = Inr item_links"
    by (cases "comprehension (\<lambda>item. browsable_item_link urljoin item base_url) node_items")
       (auto simp: browsable_catalog_def comprehension_child_links)
  from assms kids its il obtain self_href where
    self: "urljoin base_url (''/catalogs/'' @ str_strip ''/'' catalog_path) = Inr self_href"
    by (cases "urljoin base_url (''/catalogs/'' @ str_strip ''/'' catalog_path)")
       (auto simp: browsable_catalog_def comprehension_child_links)
  from assms kids its il self obtain cid where cid: "catalog_id node = Some cid"
    by (cases "catalog_id node")
       (auto simp: browsable_catalog_def comprehension_child_links Let_def)
  from assms show ?thesis
    unfolding browsable_catalog_unfold [OF kids its il self cid]
    using kids its il self cid
    by (auto simp: Let_def split: if_splits)
qed

text \<open>
  Inputs on which the code builds all links and the validation of \<^verbatim>\<open>Catalog(...)\<close> then
  fails: an empty \<^verbatim>\<open>catalog_id\<close>, a child with neither id (its link is \<^verbatim>\<open>None\<close>), and an
  empty base URL (the href of the root link is empty).
\<close>

lemma browsable_catalog_validation_fails:
  "browsable_catalog stac_pydantic_validate (urllib_urljoin (\<lambda>host. True)) ''1.0.0''
     (CatalogNode '''' [] (Some []) None None) ''x'' ''https://example.com/''
     = Inl ValidationError"
  "browsable_catalog stac_pydantic_validate (urllib_urljoin (\<lambda>host. True)) ''1.0.0''
     (CatalogNode ''x'' [BrowsableNode [] (Some [])] (Some []) None None) ''x''
     ''https://example.com/''
     = Inl ValidationError"
  "browsable_catalog stac_pydantic_validate (urllib_urljoin (\<lambda>host. True)) ''1.0.0''
     (CatalogNode ''x'' [] (Some []) None None) ''x'' ''''
     = Inl ValidationError"
  by code_simp+

text \<open>
  Claim C1 says that a node with a \<^verbatim>\<open>collection_id\<close> key gets a child link whose href is
  the base URL joined with \<^verbatim>\<open>collections/{collection_id}\<close>. The code does not return a link
  there: for every such node the call of \<^verbatim>\<open>urljoin\<close> with a single list argument raises
  \<^verbatim>\<open>TypeError\<close>.
\<close>

theorem browsable_child_link_collection_raises:
  "collection_id node = Some cid \<Longrightarrow> browsable_child_link node base_url = Inl TypeError"
  by (simp add: browsable_child_link_def urljoin_one_argument_def)

theorem browsable_child_link_collection_raises_witness:
  "browsable_child_link (CollectionNode ''c1'' [] None) ''https://example.com/'' = Inl TypeError"
  using browsable_child_link_collection_raises
          [of "CollectionNode ''c1'' [] None" "''c1''" "''https://example.com/''"]
  by (simp add: CollectionNode_def)

text \<open>
  Claim C2 says that the catalog of a node with \<open>m\<close> children and \<open>n\<close> items has
  \<open>m + n + 2\<close> links. Whenever one of the children is a collection node, the code returns no
  catalog: building that child's link raises \<^verbatim>\<open>TypeError\<close>. The instance is the example of
  the specification, one collection child and one item.
\<close>

theorem browsable_catalog_collection_child_raises:
  "\<exists>child \<in> set (children node). collection_id child \<noteq> None \<Longrightarrow>
     browsable_catalog validate urljoin STAC_VERSION node catalog_path base_url = Inl TypeError"
  by (simp add: browsable_catalog_def comprehension_child_links_TypeError)

theorem browsable_catalog_collection_child_raises_witness:
  "browsable_catalog stac_pydantic_validate (urllib_urljoin (\<lambda>host. True)) ''1.0.0''
     (parse_hierarchy
        (Dict None (Some ''root'') None None
           (Some [Dict (Some ''c1'') None None None None None])
           (Some [(''c1'', ''item1'')])))
     ''root'' ''https://example.com/'' = Inl TypeError"
  using browsable_catalog_collection_child_raises
          [of "parse_hierarchy
                 (Dict None (Some ''root'') None None
                    (Some [Dict (Some ''c1'') None None None None None])
                    (Some [(''c1'', ''item1'')]))"
              stac_pydantic_validate
              "urllib_urljoin (\<lambda>host. True)" "''1.0.0''" "''root''"
              "''https://example.com/''"]
  by (simp add: CollectionNode_def CatalogNode_def)

text \<open>
  Claim C4, amended. For a node with a \<^verbatim>\<open>catalog_id\<close> key and no \<^verbatim>\<open>collection_id\<close> key the
  child link has rel \<^verbatim>\<open>child\<close>, type \<^verbatim>\<open>application/json\<close>, as title the node's title when it
  is present and not empty and the \<^verbatim>\<open>catalog_id\<close> otherwise, and as href
  \<^verbatim>\<open>base_url.strip("/")\<close> (all leading and all trailing slashes removed), a slash and the
  \<^verbatim>\<open>catalog_id\<close>. The href contains \<^verbatim>\<open>collections/\<close> exactly when the stripped base URL
  followed by a slash, or the \<^verbatim>\<open>catalog_id\<close>, contains it.
\<close>

theorem browsable_child_link_catalog:
  assumes "collection_id node = None" and "catalog_id node = Some cid"
  shows "browsable_child_link node base_url =
           Inr (Some \<lparr>link_rel = ''child'', link_type = ''application/json'',
                      link_title = Some (case title node of
                                           Some t \<Rightarrow> if t \<noteq> [] then t else cid
                                         | None \<Rightarrow> cid),
                      link_href = str_strip ''/'' base_url @ ''/'' @ cid\<rparr>) \<and>
         (sublist ''collections/'' (str_strip ''/'' base_url @ ''/'' @ cid) \<longleftrightarrow>
            sublist ''collections/'' (str_strip ''/'' base_url @ ''/'') \<or>
            sublist ''collections/'' cid)"
proof (intro conjI)
  show "browsable_child_link node base_url =
           Inr (Some \<lparr>link_rel = ''child'', link_type = ''application/json'',
                      link_title = Some (case title node of
                                           Some t \<Rightarrow> if t \<noteq> [] then t else cid
                                         | None \<Rightarrow> cid),
                      link_href = str_strip ''/'' base_url @ ''/'' @ cid\<rparr>)"
    using assms
    by (simp add: browsable_child_link_def py_or_def Relations_child_def MimeTypes_json_def
          split: option.splits)
  show "sublist ''collections/'' (str_strip ''/'' base_url @ ''/'' @ cid) \<longleftrightarrow>
          sublist ''collections/'' (str_strip ''/'' base_url @ ''/'') \<or>
          sublist ''collections/'' cid"
    using sublist_collections [of "str_strip ''/'' base_url" cid] by simp
qed

theorem browsable_child_link_catalog_witness:
  "browsable_child_link (CatalogNode ''sub'' [] None (Some ''Sub'') None) ''https://example.com/api/''
     = Inr (Some \<lparr>link_rel = ''child'', link_type = ''application/json'',
                  link_title = Some ''Sub'',
                  link_href = ''https://example.com/api/sub''\<rparr>)"
  using browsable_child_link_catalog
          [of "CatalogNode ''sub'' [] None (Some ''Sub'') None" "''sub''" "''https://example.com/api/''"]
  by (simp add: CatalogNode_def str_strip_def str_rstrip_def str_lstrip_def)

text \<open>
  The claim as stated fails for a base URL that itself contains \<^verbatim>\<open>collections/\<close>: the href
  of the catalog child then contains it too.
\<close>

theorem browsable_child_link_catalog_counterexample:
  "browsable_child_link (CatalogNode ''x'' [] None None None) ''http://h/collections/''
     = Inr (Some \<lparr>link_rel = ''child'', link_type = ''application/json'',
                  link_title = Some ''x'',
                  link_href = ''http://h/collections/x''\<rparr>) \<and>
   sublist ''collections/'' ''http://h/collections/x''"
  by (simp add: browsable_child_link_def CatalogNode_def py_or_def Relations_child_def
        MimeTypes_json_def str_strip_def str_rstrip_def str_lstrip_def sublist_Cons_right)

text \<open>
  Claim C7, amended. Whenever \<^verbatim>\<open>browsable_catalog\<close> returns a catalog, its description is
  the node's description when that is present and not empty, and otherwise
  \<^verbatim>\<open>Generated description for {catalog_id}\<close>. (It returns one only when no child has a
  \<^verbatim>\<open>collection_id\<close>, \<^verbatim>\<open>items\<close> is a list, \<^verbatim>\<open>urljoin\<close> accepts the base URL, the node has a
  \<^verbatim>\<open>catalog_id\<close> and the validation of \<^verbatim>\<open>Catalog(...)\<close> passes: \<open>browsable_catalog_Inr_D\<close>.)
\<close>

theorem browsable_catalog_description:
  assumes "browsable_catalog validate urljoin STAC_VERSION node catalog_path base_url = Inr cat"
  shows "\<exists>cid. catalog_id node = Some cid \<and>
           cat_description cat =
             (case description node of
                Some d \<Rightarrow> if d \<noteq> [] then d else ''Generated description for '' @ cid
              | None \<Rightarrow> ''Generated description for '' @ cid)"
  using browsable_catalog_Inr_D [OF assms] by blast

theorem browsable_catalog_description_witness:
  "(\<exists>cat. browsable_catalog stac_pydantic_validate (urllib_urljoin (\<lambda>host. True)) ''1.0.0''
            (CatalogNode ''x'' [] (Some [(''c1'', ''item1'')]) None (Some ''My catalog''))
            ''x'' ''https://example.com/'' = Inr cat \<and>
          cat_description cat = ''My catalog'') \<and>
   (\<exists>cat. browsable_catalog stac_pydantic_validate (urllib_urljoin (\<lambda>host. True)) ''1.0.0''
            (CatalogNode ''x'' [] (Some []) None None)
            ''x'' ''https://example.com/'' = Inr cat \<and>
          cat_description cat = ''Generated description for x'')"
proof -
  let ?r1 = "browsable_catalog stac_pydantic_validate (urllib_urljoin (\<lambda>host. True)) ''1.0.0''
               (CatalogNode ''x'' [] (Some [(''c1'', ''item1'')]) None (Some ''My catalog''))
               ''x'' ''https://example.com/''"
  let ?r2 = "browsable_catalog stac_pydantic_validate (urllib_urljoin (\<lambda>host. True)) ''1.0.0''
               (CatalogNode ''x'' [] (Some []) None None)
               ''x'' ''https://example.com/''"
  have "case ?r1 of Inl e \<Rightarrow> False | Inr cat \<Rightarrow> True" by code_simp
  then obtain cat1 where cat1: "?r1 = Inr cat1" by (cases ?r1) simp_all
  have "case ?r2 of Inl e \<Rightarrow> False | Inr cat \<Rightarrow> True" by code_simp
  then obtain cat2 where cat2: "?r2 = Inr cat2" by (cases ?r2) simp_all
  from browsable_catalog_description [OF cat1]
  have "cat_description cat1 = ''My catalog''" by (simp add: CatalogNode_def)
  moreover from browsable_catalog_description [OF cat2]
  have "cat_description cat2 = ''Generated description for x''" by (simp add: CatalogNode_def)
  ultimately show ?thesis using cat1 cat2 by simp
qed

text \<open>
  The claim as stated fails for a description that is present and empty: \<^verbatim>\<open>or\<close> takes the
  generated default.
\<close>

theorem browsable_catalog_description_counterexample:
  "description (CatalogNode ''x'' [] (Some []) None (Some '''')) = Some '''' \<and>
   map_sum id cat_description
     (browsable_catalog stac_pydantic_validate (urllib_urljoin (\<lambda>host. True)) ''1.0.0''
        (CatalogNode ''x'' [] (Some []) None (Some '''')) ''x'' ''https://example.com/'')
     = Inr ''Generated description for x''"
  by code_simp

text \<open>
  Claim C3, amended. Whenever \<^verbatim>\<open>browsable_catalog\<close> returns a catalog, its last two links are
  the root link, with the base URL itself as href, and the self link, with href
  \<^verbatim>\<open>urljoin(base_url, "/catalogs/" + catalog_path.strip("/"))\<close>; one link for each child and
  each item comes before them. The stripped path neither starts nor ends with a slash, so
  joining it to \<^verbatim>\<open>/catalogs/\<close> doubles no separator. The self href ends with
  \<^verbatim>\<open>/catalogs/{stripped catalog_path}\<close> whenever the stripped path is a plain path; slashes
  inside the path, doubled ones too, are kept as they are.
\<close>

theorem browsable_catalog_standard_links:
  assumes "browsable_catalog validate (urllib_urljoin chk) STAC_VERSION node catalog_path base_url
             = Inr cat"
  shows "\<exists>links node_items self_href.
           cat_links cat =
             links @
             [Some \<lparr>link_rel = ''root'', link_type = ''application/json'',
                    link_title = None, link_href = base_url\<rparr>,
              Some \<lparr>link_rel = ''self'', link_type = ''application/json'',
                    link_title = None, link_href = self_href\<rparr>] \<and>
           items node = Some node_items \<and>
           length links = length (children node) + length node_items \<and>
           urllib_urljoin chk base_url (''/catalogs/'' @ str_strip ''/'' catalog_path)
             = Inr self_href \<and>
           (str_strip ''/'' catalog_path \<noteq> [] \<longrightarrow>
              hd (str_strip ''/'' catalog_path) \<noteq> CHR ''/'' \<and>
              last (str_strip ''/'' catalog_path) \<noteq> CHR ''/'') \<and>
           (plain_path (str_strip ''/'' catalog_path) \<longrightarrow>
              suffix (''/catalogs/'' @ str_strip ''/'' catalog_path) self_href)"
proof -
  let ?p = "str_strip ''/'' catalog_path"
  from browsable_catalog_Inr_D [OF assms] obtain node_items item_links self_href cid where
    its: "items node = Some node_items"
    and il: "comprehension (\<lambda>item. browsable_item_link (urllib_urljoin chk) item base_url)
               node_items = Inr item_links"
    and self: "urllib_urljoin chk base_url (''/catalogs/'' @ ?p) = Inr self_href"
    and links: "cat_links cat =
             map (\<lambda>child. case catalog_id child of
                     Some cid \<Rightarrow>
                       Some \<lparr>link_rel = Relations_child, link_type = MimeTypes_json,
                             link_title = py_or (title child) (catalog_id child),
                             link_href = str_join ''/'' [str_strip ''/'' base_url, cid]\<rparr>
                   | None \<Rightarrow> None) (children node)
             @ map Some item_links
             @ [Some \<lparr>link_rel = Relations_root, link_type = MimeTypes_json,
                      link_title = None, link_href = base_url\<rparr>,
                Some \<lparr>link_rel = Relations_self, link_type = MimeTypes_json,
                      link_title = None, link_href = self_href\<rparr>]"
    by blast
  from il have len: "length item_links = length node_items"
    using comprehension_Inr_D map_eq_imp_length_eq by fastforce
  have ends: "?p \<noteq> [] \<longrightarrow> hd ?p \<noteq> CHR ''/'' \<and> last ?p \<noteq> CHR ''/''"
    using str_strip_ends [of "''/''" catalog_path] by simp
  have suf: "plain_path ?p \<longrightarrow> suffix (''/catalogs/'' @ ?p) self_href"
    using self urllib_urljoin_catalogs_suffix by blast
  let ?links = "map (\<lambda>child. case catalog_id child of
                     Some cid \<Rightarrow>
                       Some \<lparr>link_rel = Relations_child, link_type = MimeTypes_json,
                             link_title = py_or (title child) (catalog_id child),
                             link_href = str_join ''/'' [str_strip ''/'' base_url, cid]\<rparr>
                   | None \<Rightarrow> None) (children node)
                 @ map Some item_links"
  have "cat_links cat =
          ?links @
          [Some \<lparr>link_rel = ''root'', link_type = ''application/json'',
                 link_title = None, link_href = base_url\<rparr>,
           Some \<lparr>link_rel = ''self'', link_type = ''application/json'',
                 link_title = None, link_href = self_href\<rparr>]"
    using links by (simp add: Relations_root_def Relations_self_def MimeTypes_json_def)
  moreover have "length ?links = length (children node) + length node_items"
    using len by simp
  ultimately show ?thesis
    using its self ends suf by blast
qed

theorem browsable_catalog_standard_links_witness:
  "\<exists>cat links.
     browsable_catalog stac_pydantic_validate (urllib_urljoin (\<lambda>host. True)) ''1.0.0''
       (CatalogNode ''root'' [CatalogNode ''sub'' [] None None None]
          (Some [(''c1'', ''item1'')]) None None)
       ''/root/'' ''https://example.com/'' = Inr cat \<and>
     cat_links cat =
       links @
       [Some \<lparr>link_rel = ''root'', link_type = ''application/json'',
              link_title = None, link_href = ''https://example.com/''\<rparr>,
        Some \<lparr>link_rel = ''self'', link_type = ''application/json'',
              link_title = None, link_href = ''https://example.com/catalogs/root''\<rparr>] \<and>
     length links = 2 \<and>
     suffix ''/catalogs/root'' ''https://example.com/catalogs/root''"
proof -
  let ?node = "CatalogNode ''root'' [CatalogNode ''sub'' [] None None None]
                 (Some [(''c1'', ''item1'')]) None None"
  let ?r = "browsable_catalog stac_pydantic_validate (urllib_urljoin (\<lambda>host. True)) ''1.0.0''
              ?node ''/root/'' ''https://example.com/''"
  have "case ?r of Inl e \<Rightarrow> False | Inr cat \<Rightarrow> True" by code_simp
  then obtain cat where cat: "?r = Inr cat" by (cases ?r) simp_all
  have strip: "str_strip ''/'' ''/root/'' = ''root''"
    by code_simp
  have plain: "plain_path ''root''"
    by code_simp
  have join: "urllib_urljoin (\<lambda>host. True) ''https://example.com/'' (''/catalogs/'' @ ''root'')
                = Inr ''https://example.com/catalogs/root''"
    by code_simp
  from browsable_catalog_standard_links [OF cat]
  obtain links node_items self_href where
    "cat_links cat =
       links @
       [Some \<lparr>link_rel = ''root'', link_type = ''application/json'',
              link_title = None, link_href = ''https://example.com/''\<rparr>,
        Some \<lparr>link_rel = ''self'', link_type = ''application/json'',
              link_title = None, link_href = self_href\<rparr>]"
    and "items ?node = Some node_items"
    and "length links = length (children ?node) + length node_items"
    and "urllib_urljoin (\<lambda>host. True) ''https://example.com/''
           (''/catalogs/'' @ str_strip ''/'' ''/root/'') = Inr self_href"
    and "plain_path (str_strip ''/'' ''/root/'') \<longrightarrow>
           suffix (''/catalogs/'' @ str_strip ''/'' ''/root/'') self_href"
    by blast
  then show ?thesis
    unfolding strip using cat plain join by (auto simp: CatalogNode_def)
qed

text \<open>
  The claim as stated fails in both of its parts about the path. For the catalog path
  \<^verbatim>\<open>a/../b\<close>, \<^verbatim>\<open>urljoin\<close> resolves the \<^verbatim>\<open>..\<close> segment, and the self href ends with
  \<^verbatim>\<open>/catalogs/b\<close>. For the catalog path \<^verbatim>\<open>/a//b/\<close>, only the outer slashes are stripped, and
  the self href keeps the doubled separator of \<^verbatim>\<open>a//b\<close>.
\<close>

theorem browsable_catalog_standard_links_counterexample:
  "map_sum id (\<lambda>cat. map (map_option link_href) (cat_links cat))
     (browsable_catalog stac_pydantic_validate (urllib_urljoin (\<lambda>host. True)) ''1.0.0''
        (CatalogNode ''x'' [] (Some []) None None) ''a/../b'' ''https://example.com/'')
     = Inr [Some ''https://example.com/'', Some ''https://example.com/catalogs/b''] \<and>
   str_strip ''/'' ''a/../b'' = ''a/../b'' \<and>
   \<not> suffix ''/catalogs/a/../b'' ''https://example.com/catalogs/b'' \<and>
   map_sum id (\<lambda>cat. map (map_option link_href) (cat_links cat))
     (browsable_catalog stac_pydantic_validate (urllib_urljoin (\<lambda>host. True)) ''1.0.0''
        (CatalogNode ''x'' [] (Some []) None None) ''/a//b/'' ''https://example.com/'')
     = Inr [Some ''https://example.com/'', Some ''https://example.com/catalogs/a//b''] \<and>
   sublist ''//'' ''/catalogs/a//b''"
  by code_simp

text \<open>
  Claim C5, amended. The item link has rel \<^verbatim>\<open>item\<close>, type \<^verbatim>\<open>application/json\<close> and as href
  the result of \<^verbatim>\<open>urljoin(base_url, "collections/{collection_id}/items/{item_id}")\<close>. With
  the standard library's \<^verbatim>\<open>urljoin\<close> and a base URL that \<^verbatim>\<open>urlparse\<close> accepts, the link is
  returned, and its href ends with (so contains) \<^verbatim>\<open>collections/{collection_id}/items/{item_id}\<close>
  whenever both ids are plain segments and the collection id is not empty.
\<close>

theorem browsable_item_link_href:
  "browsable_item_link urljoin (c, i) base_url =
     (case urljoin base_url (''collections/'' @ c @ ''/items/'' @ i) of
        Inl e \<Rightarrow> Inl e
      | Inr href \<Rightarrow>
          Inr \<lparr>link_rel = ''item'', link_type = ''application/json'',
               link_title = None, link_href = href\<rparr>) \<and>
   (urlparse chk base_url [] = Inr pb \<longrightarrow>
      (\<exists>href. urllib_urljoin chk base_url (''collections/'' @ c @ ''/items/'' @ i) = Inr href \<and>
         (plain_segment c \<and> c \<noteq> [] \<and> plain_segment i \<longrightarrow>
            suffix (''collections/'' @ c @ ''/items/'' @ i) href \<and>
            sublist (''collections/'' @ c @ ''/items/'' @ i) href)))"
proof (intro conjI impI)
  show "browsable_item_link urljoin (c, i) base_url =
     (case urljoin base_url (''collections/'' @ c @ ''/items/'' @ i) of
        Inl e \<Rightarrow> Inl e
      | Inr href \<Rightarrow>
          Inr \<lparr>link_rel = ''item'', link_type = ''application/json'',
               link_title = None, link_href = href\<rparr>)"
    by (simp add: browsable_item_link_def Relations_item_def MimeTypes_json_def
          split: sum.splits)
next
  assume "urlparse chk base_url [] = Inr pb"
  then obtain href where
    href: "urllib_urljoin chk base_url (''collections/'' @ c @ ''/items/'' @ i) = Inr href"
    using urllib_urljoin_item_path_ok by blast
  have "suffix (''collections/'' @ c @ ''/items/'' @ i) href \<and>
        sublist (''collections/'' @ c @ ''/items/'' @ i) href"
    if "plain_segment c \<and> c \<noteq> [] \<and> plain_segment i"
  proof -
    from that href have "suffix (''collections/'' @ c @ ''/items/'' @ i) href"
      using urllib_urljoin_item_path_suffix by blast
    then show ?thesis by (simp add: suffix_imp_sublist)
  qed
  with href show
    "\<exists>href. urllib_urljoin chk base_url (''collections/'' @ c @ ''/items/'' @ i) = Inr href \<and>
         (plain_segment c \<and> c \<noteq> [] \<and> plain_segment i \<longrightarrow>
            suffix (''collections/'' @ c @ ''/items/'' @ i) href \<and>
            sublist (''collections/'' @ c @ ''/items/'' @ i) href)"
    by blast
qed

theorem browsable_item_link_href_witness:
  "browsable_item_link (urllib_urljoin (\<lambda>host. True)) (''c1'', ''item1'')
     ''https://example.com/api/''
     = Inr \<lparr>link_rel = ''item'', link_type = ''application/json'', link_title = None,
            link_href = ''https://example.com/api/collections/c1/items/item1''\<rparr> \<and>
   sublist ''collections/c1/items/item1''
     ''https://example.com/api/collections/c1/items/item1''"
proof -
  have base: "urlparse (\<lambda>host. True) ''https://example.com/api/'' []
                = Inr (''https'', ''example.com'', ''/api/'', [], [], [])"
    by code_simp
  have plain: "plain_segment ''c1'' \<and> ''c1'' \<noteq> [] \<and> plain_segment ''item1''"
    by code_simp
  have join: "urllib_urljoin (\<lambda>host. True) ''https://example.com/api/''
                (''collections/'' @ ''c1'' @ ''/items/'' @ ''item1'')
              = Inr ''https://example.com/api/collections/c1/items/item1''"
    by code_simp
  show ?thesis
    using browsable_item_link_href
            [of "urllib_urljoin (\<lambda>host. True)" "''c1''" "''item1''"
                "''https://example.com/api/''" "\<lambda>host. True"
                "(''https'', ''example.com'', ''/api/'', [], [], [])"]
          base plain join
    by simp
qed

text \<open>
  The claim as stated fails for the collection id \<^verbatim>\<open>..\<close>: \<^verbatim>\<open>urljoin\<close> resolves the segment, and
  the href no longer contains \<^verbatim>\<open>collections/../items/item1\<close>.
\<close>

theorem browsable_item_link_href_counterexample:
  "browsable_item_link (urllib_urljoin (\<lambda>host. True)) (''..'', ''item1'')
     ''https://example.com/''
     = Inr \<lparr>link_rel = ''item'', link_type = ''application/json'', link_title = None,
            link_href = ''https://example.com/items/item1''\<rparr> \<and>
   \<not> sublist ''collections/../items/item1'' ''https://example.com/items/item1''"
  by code_simp

end
